theory Spec2Isabelle
  imports Main "HOL-Library.AList"
begin

section \<open>Python values, errors and ordered dictionaries\<close>

text \<open>
  The answers the questionnaire records are strings (single choice), lists of strings
  (multiple choice) or, for the moment between a back signal and the rewind, \<open>None\<close>.
  Condition values are compared with answers, so they have the same type.
\<close>

datatype pyval = VNone | VStr string | VList "string list"

text \<open>
  Every exception of the source is a value. \<open>AssertionError\<close> is what the three
  \<open>assert\<close> statements of \<open>Condition.__init__\<close> raise (the specification calls it
  InvalidCondition), \<open>KeyError\<close> is a failed dictionary lookup (MissingAnswer).
  \<open>CallableRaised\<close> stands for any exception of a user-supplied operator.
  \<open>NoInput\<close> and \<open>BadIndex\<close> belong to the model of the external picker: the
  script of key presses is used up, or names an entry the picker does not show.
\<close>

datatype error =
    AssertionError | KeyError | TypeError | ValueError | AttributeError
  | CallableRaised | NoInput | BadIndex

text \<open>
  An \<open>OrderedDict\<close> is an association list in insertion order: \<open>d[k]\<close> is
  \<^const>\<open>map_of\<close>, \<open>d[k] = v\<close> is \<^const>\<open>AList.update\<close> (in place when the key is
  there, appended otherwise) and \<open>k in d\<close> is \<open>map_of d k \<noteq> None\<close>.
\<close>

fun py_truthy :: "pyval \<Rightarrow> bool" where
  "py_truthy VNone = False"
| "py_truthy (VStr s) = (s \<noteq> [])"
| "py_truthy (VList xs) = (xs \<noteq> [])"

text \<open>
  \<open>str.format\<close> of a value with the empty format specification: a string as it is, a
  list as its \<open>repr\<close>. The escaping that \<open>repr\<close> applies to quotes and backslashes inside
  an element is left out; the text only reaches the picker's title.
\<close>

fun join_commas :: "string list \<Rightarrow> string" where
  "join_commas [] = []"
| "join_commas [x] = x"
| "join_commas (x # y # ys) = x @ '', '' @ join_commas (y # ys)"

fun py_format :: "pyval \<Rightarrow> string" where
  "py_format VNone = ''None''"
| "py_format (VStr s) = s"
| "py_format (VList xs) =
     ''['' @ join_commas (map (\<lambda>x. [CHR 0x27] @ x @ [CHR 0x27]) xs) @ '']''"

section \<open>The picker adaptation layer\<close>

text \<open>
  The \<open>pick\<close> library is external. One run of \<open>Picker.start\<close> is decided by what the
  user does: leave with \<open>h\<close> or the left arrow (the custom handlers return
  \<open>(None, -1)\<close>), or confirm the entry under the cursor, which returns the entry and
  its index. The user's actions over a whole session are a script, consumed from the
  front; the rest of the script is returned with every result.
\<close>

datatype action = Back | Select nat

fun picker_start :: "string list \<Rightarrow> action \<Rightarrow> error + (string option \<times> int)" where
  "picker_start opts Back = Inr (None, - 1)"
| "picker_start opts (Select n) =
     (if n < length opts then Inr (Some (opts ! n), int n) else Inl BadIndex)"

fun back_pick ::
  "string list \<Rightarrow> string \<Rightarrow> action list \<Rightarrow> error + ((string option \<times> int) \<times> action list)"
where
  "back_pick opts title [] = Inl NoInput"
| "back_pick opts title (a # rest) =
     (case picker_start opts a of Inl e \<Rightarrow> Inl e | Inr r \<Rightarrow> Inr (r, rest))"

text \<open>
  The \<open>while True\<close> loop of \<open>back_pick_multiple\<close>: \<open>pool\<close> is the local \<open>_options\<close>,
  \<open>acc\<close> the local \<open>options\<close>, \<open>all_mark\<close> and \<open>done_mark\<close> the parameters \<open>ALL\<close>
  and \<open>DONE\<close>.
\<close>

function pick_loop ::
  "string list \<Rightarrow> string list \<Rightarrow> string \<Rightarrow> string \<Rightarrow> string \<Rightarrow> action list
     \<Rightarrow> error + ((string list \<times> int) \<times> action list)"
where
  "pick_loop pool acc title all_mark done_mark script =
     (case back_pick pool (title @ py_format (VList acc)) script of
        Inl e \<Rightarrow> Inl e
      | Inr ((opt, i), rest) \<Rightarrow>
          if i < 0 then Inr ((acc, i), rest)
          else (case opt of
                  None \<Rightarrow> Inl ValueError
                | Some ch \<Rightarrow>
                    if ch = all_mark then Inr (([all_mark], i), rest)
                    else if ch = done_mark then Inr ((acc, i), rest)
                    else pick_loop (remove1 ch pool) (acc @ [ch]) title all_mark done_mark rest))"
  by pat_completeness auto
termination
  apply (relation "measure (\<lambda>(pool, acc, title, all_mark, done_mark, script). length script)")
   apply simp
  subgoal for pool acc title all_mark done_mark script
    by (cases script) (auto split: sum.splits)
  done

declare pick_loop.simps [simp del]

definition back_pick_multiple ::
  "string list \<Rightarrow> string \<Rightarrow> string \<Rightarrow> string \<Rightarrow> action list
     \<Rightarrow> error + ((string list \<times> int) \<times> action list)"
where
  "back_pick_multiple opts title all_mark done_mark script =
     pick_loop ([all_mark] @ opts @ [done_mark]) [] title all_mark done_mark script"

definition ALL_default :: string where
  "ALL_default = ''all''"

definition DONE_default :: string where
  "DONE_default = ''done...''"

section \<open>Conditions\<close>

text \<open>
  An operator of a Condition is a hashable Python object: a string (\<open>Sym\<close>) or anything
  else (\<open>Fn\<close>). Of the latter the model keeps two things. The first is the parameter
  list that introspection can read from the object: \<open>Some n\<close> for a function or method
  written in Python whose code names \<open>n\<close> positional parameters, \<open>None\<close> for an object
  that has no such list (a built-in function, a \<open>functools.partial\<close>, an instance, a
  number). The second is what calling the object with two arguments does: the truth
  value of the result, or \<open>None\<close> when the call raises.
\<close>

datatype oper = Sym string | Fn "nat option" "pyval \<Rightarrow> pyval \<Rightarrow> bool option"

fun str_le :: "string \<Rightarrow> string \<Rightarrow> bool" where
  "str_le [] t = True"
| "str_le (c # s) [] = False"
| "str_le (c # s) (d # t) = (if c = d then str_le s t else (of_char c :: nat) < of_char d)"

fun list_le :: "string list \<Rightarrow> string list \<Rightarrow> bool" where
  "list_le [] ys = True"
| "list_le (x # xs) [] = False"
| "list_le (x # xs) (y # ys) = (if x = y then list_le xs ys else str_le x y)"

fun is_substr :: "string \<Rightarrow> string \<Rightarrow> bool" where
  "is_substr s [] = (s = [])"
| "is_substr s (c # t) = (take (length s) (c # t) = s \<or> is_substr s t)"

fun op_eq :: "pyval \<Rightarrow> pyval \<Rightarrow> error + bool" where
  "op_eq x y = Inr (x = y)"

fun op_ne :: "pyval \<Rightarrow> pyval \<Rightarrow> error + bool" where
  "op_ne x y = Inr (x \<noteq> y)"

fun op_le :: "pyval \<Rightarrow> pyval \<Rightarrow> error + bool" where
  "op_le (VStr a) (VStr b) = Inr (str_le a b)"
| "op_le (VList a) (VList b) = Inr (list_le a b)"
| "op_le x y = Inl TypeError"

fun op_ge :: "pyval \<Rightarrow> pyval \<Rightarrow> error + bool" where
  "op_ge (VStr a) (VStr b) = Inr (str_le b a)"
| "op_ge (VList a) (VList b) = Inr (list_le b a)"
| "op_ge x y = Inl TypeError"

text \<open>\<open>lambda x, y: x in y\<close>: substring test in a string, membership in a list.\<close>

fun op_in :: "pyval \<Rightarrow> pyval \<Rightarrow> error + bool" where
  "op_in (VStr a) (VStr b) = Inr (is_substr a b)"
| "op_in x (VStr b) = Inl TypeError"
| "op_in (VStr a) (VList b) = Inr (a \<in> set b)"
| "op_in x (VList b) = Inr False"
| "op_in x VNone = Inl TypeError"

fun op_not_in :: "pyval \<Rightarrow> pyval \<Rightarrow> error + bool" where
  "op_not_in x y = (case op_in x y of Inl e \<Rightarrow> Inl e | Inr b \<Rightarrow> Inr (\<not> b))"

definition OPERATORS :: "(string \<times> (pyval \<Rightarrow> pyval \<Rightarrow> error + bool)) list" where
  "OPERATORS =
     [(''=='', op_eq), (''!='', op_ne), (''<='', op_le), (''>='', op_ge),
      (''in'', op_in), (''not in'', op_not_in)]"

text \<open>
  \<open>get_operator\<close> returns the table's function for a symbol of the table and the
  operator itself otherwise; the result is then called with two arguments. Calling a
  string raises \<open>TypeError\<close>.
\<close>

fun get_operator :: "oper \<Rightarrow> pyval \<Rightarrow> pyval \<Rightarrow> error + bool" where
  "get_operator (Sym s) =
     (case map_of OPERATORS s of
        Some f \<Rightarrow> f
      | None \<Rightarrow> (\<lambda>x y. Inl TypeError))"
| "get_operator (Fn n f) =
     (\<lambda>x y. case f x y of None \<Rightarrow> Inl CallableRaised | Some b \<Rightarrow> Inr b)"

text \<open>
  The operator list of a condition dictionary can hold any object. An object that is
  not hashable (a list, a dict, a set) is kept apart: the membership test
  \<open>op in Condition._OPERATORS\<close> raises \<open>TypeError\<close> for it.
\<close>

datatype pyop = Hashable oper | Unhashable

fun in_OPERATORS :: "pyop \<Rightarrow> error + bool" where
  "in_OPERATORS (Hashable (Sym s)) = Inr (map_of OPERATORS s \<noteq> None)"
| "in_OPERATORS (Hashable (Fn n f)) = Inr False"
| "in_OPERATORS Unhashable = Inl TypeError"

text \<open>
  The \<open>inspect\<close> module belongs to the interpreter, not to the repository. What matters
  of it here is whether it has \<open>getargspec\<close>: Python 3.11 removed the function, and
  there the attribute lookup \<open>inspect.getargspec\<close> raises \<open>AttributeError\<close>. Where it is
  present, \<open>len(inspect.getargspec(op)[0])\<close> is the number of positional parameter names
  of a Python function, and \<open>getargspec\<close> raises for an object without such a list.
\<close>

datatype inspect_module = Getargspec_present | Getargspec_absent

fun getargspec_len :: "inspect_module \<Rightarrow> pyop \<Rightarrow> error + nat" where
  "getargspec_len Getargspec_absent op = Inl AttributeError"
| "getargspec_len Getargspec_present (Hashable (Fn (Some n) f)) = Inr n"
| "getargspec_len Getargspec_present op = Inl TypeError"

text \<open>
  \<open>check_operator\<close>: the membership test stands before the \<open>try\<close>, so its \<open>TypeError\<close>
  leaves the function; a symbol of the table passes; for anything else the answer is
  whether \<open>getargspec\<close> lists two names, and every exception inside the \<open>try\<close> is
  turned into \<open>False\<close> by the bare \<open>except\<close>.
\<close>

definition check_operator :: "inspect_module \<Rightarrow> pyop \<Rightarrow> error + bool" where
  "check_operator insp op =
     (case in_OPERATORS op of
        Inl e \<Rightarrow> Inl e
      | Inr b \<Rightarrow>
          if b then Inr True
          else (case getargspec_len insp op of
                  Inl e \<Rightarrow> Inr False
                | Inr n_args \<Rightarrow> Inr (n_args = 2)))"

text \<open>
  \<open>all(Condition.check_operator(op) for op in self._operators)\<close>: the operators are
  checked in order, the first that fails the check ends the scan with \<open>False\<close>, and an
  exception of a check leaves the scan.
\<close>

fun check_operators :: "inspect_module \<Rightarrow> pyop list \<Rightarrow> error + bool" where
  "check_operators insp [] = Inr True"
| "check_operators insp (op # ops) =
     (case check_operator insp op of
        Inl e \<Rightarrow> Inl e
      | Inr b \<Rightarrow> if b then check_operators insp ops else Inr False)"

text \<open>
  The operators of a Condition that was constructed. The scan has returned \<open>True\<close> for
  its list, so no entry of the list is unhashable and the list is kept as it is.
\<close>

fun hashable_operators :: "pyop list \<Rightarrow> oper list" where
  "hashable_operators [] = []"
| "hashable_operators (Hashable oper # ops) = oper # hashable_operators ops"
| "hashable_operators (Unhashable # ops) = hashable_operators ops"

record Condition =
  keys :: "string list"
  vals :: "pyval list"
  operators :: "oper list"

text \<open>
  The \<open>condition\<close> dictionary a caller passes: each of its three entries may be
  missing. The entries are typed as lists, so the first assertion of the constructor
  (\<open>type(var) == list\<close>) holds of every value of this type.
\<close>

record condition_dict =
  d_keys :: "string list option"
  d_vals :: "pyval list option"
  d_operators :: "pyop list option"

definition Condition_init :: "inspect_module \<Rightarrow> condition_dict \<Rightarrow> error + Condition" where
  "Condition_init insp d =
     (case d_keys d of
        None \<Rightarrow> Inl KeyError
      | Some ks \<Rightarrow>
         (case d_vals d of
            None \<Rightarrow> Inl KeyError
          | Some vs \<Rightarrow>
             (let ops = (case d_operators d of
                           Some os \<Rightarrow> os
                         | None \<Rightarrow> replicate (length ks) (Hashable (Sym ''=='')))
              in if \<not> (length ks = length ks \<and> length vs = length ks
                        \<and> length ops = length ks)
                 then Inl AssertionError
                 else (case check_operators insp ops of
                         Inl e \<Rightarrow> Inl e
                       | Inr b \<Rightarrow>
                           if \<not> b then Inl AssertionError
                           else Inr \<lparr>keys = ks, vals = vs,
                                     operators = hashable_operators ops\<rparr>))))"

section \<open>Questions\<close>

record Question =
  key :: string
  options :: "string list"
  multiple :: bool
  condition :: "Condition option"

definition Question_init ::
  "inspect_module \<Rightarrow> string \<Rightarrow> string list \<Rightarrow> bool \<Rightarrow> condition_dict \<Rightarrow> error + Question"
where
  "Question_init insp k opts mult d =
     (if d_keys d \<noteq> None \<and> d_vals d \<noteq> None
      then (case Condition_init insp d of
              Inl e \<Rightarrow> Inl e
            | Inr c \<Rightarrow> Inr \<lparr>key = k, options = opts, multiple = mult, condition = Some c\<rparr>)
      else Inr \<lparr>key = k, options = opts, multiple = mult, condition = None\<rparr>)"

text \<open>The default \<open>condition={}\<close> of the constructor.\<close>

definition no_condition :: condition_dict where
  "no_condition = \<lparr>d_keys = None, d_vals = None, d_operators = None\<rparr>"

section \<open>The questionnaire\<close>

record Questionnaire =
  questions :: "(string \<times> Question list) list"
  choices :: "(string \<times> pyval) list"

definition Questionnaire_init :: Questionnaire where
  "Questionnaire_init = \<lparr>questions = [], choices = []\<rparr>"

text \<open>
  \<open>show_choices\<close>: \<open>max\<close> of no keys raises \<open>ValueError\<close>; the padding is the length
  of the longest question key plus five, and each line is the key right-aligned to the
  padding, \<open>" : "\<close>, the answer and a newline.
\<close>

definition show_line :: "string \<Rightarrow> nat \<Rightarrow> pyval \<Rightarrow> string" where
  "show_line k padding v =
     replicate (padding - length k) CHR '' '' @ k @ '' : '' @ py_format v @ [CHR 0x0A]"

definition show_choices :: "Questionnaire \<Rightarrow> string \<Rightarrow> error + string" where
  "show_choices self s =
     (if questions self = [] then Inl ValueError
      else
        (let padding = Max (set (map (\<lambda>kq. length (fst kq)) (questions self))) + 5
         in Inr (s @ concat (map (\<lambda>k. case map_of (choices self) k of
                                          Some v \<Rightarrow> show_line k padding v
                                        | None \<Rightarrow> [])
                                 (map fst (choices self))))))"

definition go_back :: "Questionnaire \<Rightarrow> int \<Rightarrow> Questionnaire" where
  "go_back self n =
     (let N = max (int (length (choices self)) - n - 1) 0
      in self\<lparr>choices := take (nat N) (choices self)\<rparr>)"

text \<open>
  \<open>_pick\<close> of \<open>prompt\<close>: \<open>back_pick_multiple\<close> or \<open>back_pick\<close>, with the selection as
  a Python value.
\<close>

definition pick_with ::
  "bool \<Rightarrow> string list \<Rightarrow> string \<Rightarrow> action list \<Rightarrow> error + ((pyval \<times> int) \<times> action list)"
where
  "pick_with mult opts title script =
     (if mult
      then (case back_pick_multiple opts title ALL_default DONE_default script of
              Inl e \<Rightarrow> Inl e
            | Inr ((sel, i), rest) \<Rightarrow> Inr ((VList sel, i), rest))
      else (case back_pick opts title script of
              Inl e \<Rightarrow> Inl e
            | Inr ((sel, i), rest) \<Rightarrow>
                Inr (((case sel of None \<Rightarrow> VNone | Some s \<Rightarrow> VStr s), i), rest)))"

definition prompt_title :: "Questionnaire \<Rightarrow> string \<Rightarrow> string \<Rightarrow> error + string" where
  "prompt_title self k p =
     (case show_choices self [] of
        Inl e \<Rightarrow> Inl e
      | Inr s \<Rightarrow> Inr (s @ [CHR 0x0A] @ (if p \<noteq> [] then p else k @ '': '')))"

definition prompt ::
  "Questionnaire \<Rightarrow> string \<Rightarrow> string list \<Rightarrow> string \<Rightarrow> bool \<Rightarrow> action list
     \<Rightarrow> error + (bool \<times> Questionnaire \<times> action list)"
where
  "prompt self k opts p mult script =
     (case prompt_title self k p of
        Inl e \<Rightarrow> Inl e
      | Inr title \<Rightarrow>
         (case pick_with mult opts title script of
            Inl e \<Rightarrow> Inl e
          | Inr ((v, i), rest) \<Rightarrow>
             (let self1 = self\<lparr>choices := AList.update k v (choices self)\<rparr>
              in if i < 0
                 then (if mult
                       then (if py_truthy v then Inr (False, go_back self1 0, rest)
                             else Inr (False, go_back self1 1, rest))
                       else Inr (False, go_back self1 1, rest))
                 else Inr (True, self1, rest))))"

text \<open>\<open>self.questions.setdefault(question.key(), []).append(question)\<close>\<close>

definition add_question :: "Questionnaire \<Rightarrow> Question \<Rightarrow> Questionnaire" where
  "add_question self question =
     (case map_of (questions self) (key question) of
        None \<Rightarrow> self\<lparr>questions := questions self @ [(key question, [question])]\<rparr>
      | Some qs \<Rightarrow>
          self\<lparr>questions := AList.update (key question) (qs @ [question]) (questions self)\<rparr>)"

text \<open>
  The loop of \<open>check_condition\<close> over \<open>zip(keys, vals, operators)\<close>. The answer is
  looked up before the operator is called, and the first triple that does not hold
  ends the loop.
\<close>

fun check_triples ::
  "(string \<times> pyval) list \<Rightarrow> (string \<times> pyval \<times> oper) list \<Rightarrow> error + bool"
where
  "check_triples ch [] = Inr True"
| "check_triples ch ((k, v, oper) # ts) =
     (case map_of ch k of
        None \<Rightarrow> Inl KeyError
      | Some a \<Rightarrow>
         (case get_operator oper v a of
            Inl e \<Rightarrow> Inl e
          | Inr b \<Rightarrow> if \<not> b then Inr False else check_triples ch ts))"

definition triples :: "Condition \<Rightarrow> (string \<times> pyval \<times> oper) list" where
  "triples c = zip (keys c) (zip (vals c) (operators c))"

fun check_condition :: "Questionnaire \<Rightarrow> Condition option \<Rightarrow> error + bool" where
  "check_condition self None = Inr True"
| "check_condition self (Some c) = check_triples (choices self) (triples c)"

fun first_satisfied :: "Questionnaire \<Rightarrow> Question list \<Rightarrow> error + Question option" where
  "first_satisfied self [] = Inr None"
| "first_satisfied self (question # qs) =
     (case check_condition self (condition question) of
        Inl e \<Rightarrow> Inl e
      | Inr b \<Rightarrow> if b then Inr (Some question) else first_satisfied self qs)"

definition which_question :: "Questionnaire \<Rightarrow> string \<Rightarrow> error + Question option" where
  "which_question self k =
     (case map_of (questions self) k of
        None \<Rightarrow> Inl KeyError
      | Some qs \<Rightarrow> first_satisfied self qs)"

text \<open>The \<open>for\<close> loop of \<open>ask_questions\<close> over the keys still to visit.\<close>

fun ask_loop ::
  "string list \<Rightarrow> Questionnaire \<Rightarrow> action list
     \<Rightarrow> error + (bool \<times> Questionnaire \<times> action list)"
where
  "ask_loop [] self script = Inr (True, self, script)"
| "ask_loop (k # ks) self script =
     (case which_question self k of
        Inl e \<Rightarrow> Inl e
      | Inr None \<Rightarrow> ask_loop ks self script
      | Inr (Some question) \<Rightarrow>
          if map_of (choices self) k \<noteq> None then ask_loop ks self script
          else (case prompt self k (options question) [] (multiple question) script of
                  Inl e \<Rightarrow> Inl e
                | Inr (ok, self', rest) \<Rightarrow>
                    if \<not> ok then Inr (False, self', rest)
                    else ask_loop ks self' rest))"

definition ask_questions ::
  "Questionnaire \<Rightarrow> action list \<Rightarrow> error + (bool \<times> Questionnaire \<times> action list)"
where
  "ask_questions self script = ask_loop (map fst (questions self)) self script"

section \<open>Calling \<open>add_question\<close>\<close>

text \<open>
  What a caller can write between the parentheses of \<open>q.add_question(...)\<close>: positional
  arguments and keyword arguments. Python binds them to the parameter list
  \<open>(self, question)\<close>: more than one positional argument, a keyword other than
  \<open>question\<close>, the parameter given twice or not at all each raise \<open>TypeError\<close> before the
  body runs. The body calls \<open>question.key()\<close>, which only a \<open>Question\<close> has, and the
  method returns \<open>None\<close>.
\<close>

datatype pyarg =
    AStr string | AStrs "string list" | ADict condition_dict | AQuestion Question | ANone

definition bind_question :: "pyarg list \<Rightarrow> (string \<times> pyarg) list \<Rightarrow> error + pyarg" where
  "bind_question args kwargs =
     (if 1 < length args then Inl TypeError
      else if list_ex (\<lambda>name. name \<noteq> ''question'') (map fst kwargs) then Inl TypeError
      else (case (args, map_of kwargs ''question'') of
              ([a], None) \<Rightarrow> Inr a
            | ([], Some a) \<Rightarrow> Inr a
            | _ \<Rightarrow> Inl TypeError))"

definition add_question_call ::
  "Questionnaire \<Rightarrow> pyarg list \<Rightarrow> (string \<times> pyarg) list \<Rightarrow> error + (pyarg \<times> Questionnaire)"
where
  "add_question_call self args kwargs =
     (case bind_question args kwargs of
        Inl e \<Rightarrow> Inl e
      | Inr (AQuestion question) \<Rightarrow> Inr (ANone, add_question self question)
      | Inr _ \<Rightarrow> Inl AttributeError)"

section \<open>A concrete questionnaire\<close>

text \<open>
  The questionnaire of \<open>examples/activities_client.py\<close>, built from \<open>Question\<close>
  values: two unconditional questions and three variants of \<open>activities\<close>.
\<close>

definition night :: Condition where
  "night = \<lparr>keys = [''time''], vals = [VStr ''night''], operators = [Sym ''=='']\<rparr>"

definition saturday_morning :: Condition where
  "saturday_morning =
     \<lparr>keys = [''day'', ''time''], vals = [VStr ''saturday'', VStr ''morning''],
      operators = [Sym ''=='', Sym ''=='']\<rparr>"

definition morning :: Condition where
  "morning = \<lparr>keys = [''time''], vals = [VStr ''morning''], operators = [Sym ''=='']\<rparr>"

definition q_day :: Question where
  "q_day = \<lparr>key = ''day'', options = [''monday'', ''friday'', ''saturday''],
            multiple = False, condition = None\<rparr>"

definition q_time :: Question where
  "q_time = \<lparr>key = ''time'', options = [''morning'', ''night''],
             multiple = False, condition = None\<rparr>"

definition q_night :: Question where
  "q_night = \<lparr>key = ''activities'',
              options = [''eat tacos de pastor'', ''go to the cantina'', ''do some programming''],
              multiple = True, condition = Some night\<rparr>"

definition q_saturday :: Question where
  "q_saturday = \<lparr>key = ''activities'',
                 options = [''eat barbacoa'', ''watch footy match'', ''walk the dog''],
                 multiple = True, condition = Some saturday_morning\<rparr>"

definition q_morning :: Question where
  "q_morning = \<lparr>key = ''activities'',
                options = [''eat granola'', ''get dressed'', ''go to work''],
                multiple = True, condition = Some morning\<rparr>"

definition activities :: Questionnaire where
  "activities =
     \<lparr>questions = [(''day'', [q_day]), (''time'', [q_time]),
                   (''activities'', [q_night, q_saturday, q_morning])],
      choices = []\<rparr>"

section \<open>Keys a pass does not stop at\<close>

text \<open>
  A key is settled in a state when the loop of \<open>ask_questions\<close> goes past it without a
  prompt: \<open>which_question\<close> returns no variant, or it returns one and the key is
  already in \<open>choices\<close>.
\<close>

definition settled :: "Questionnaire \<Rightarrow> string \<Rightarrow> bool" where
  "settled self k =
     (case which_question self k of
        Inl e \<Rightarrow> False
      | Inr None \<Rightarrow> True
      | Inr (Some question) \<Rightarrow> map_of (choices self) k \<noteq> None)"

section \<open>Evaluation and auxiliary facts\<close>

lemmas eval_defs =
  activities_def q_day_def q_time_def q_night_def q_saturday_def q_morning_def
  night_def saturday_morning_def morning_def
  ask_questions_def which_question_def prompt_def prompt_title_def show_choices_def
  pick_with_def back_pick_multiple_def pick_loop.simps ALL_default_def DONE_default_def
  go_back_def triples_def OPERATORS_def show_line_def Let_def

lemma get_operator_errors:
  "get_operator oper v a = Inl e \<Longrightarrow> e = TypeError \<or> e = CallableRaised"
proof (cases oper)
  case (Sym s)
  assume "get_operator oper v a = Inl e"
  with Sym show ?thesis
    by (cases v; cases a) (auto simp: OPERATORS_def split: if_splits sum.splits)
next
  case (Fn n f)
  assume "get_operator oper v a = Inl e"
  with Fn show ?thesis by (auto split: option.splits)
qed


lemma check_triples_True_iff:
  "check_triples ch ts = Inr True \<longleftrightarrow>
     (\<forall>(k, v, oper) \<in> set ts. \<exists>a. map_of ch k = Some a \<and> get_operator oper v a = Inr True)"
proof (induction ts)
  case Nil
  then show ?case by simp
next
  case (Cons t ts)
  obtain k v oper where t: "t = (k, v, oper)" by (cases t)
  show ?case using Cons t
    by (auto split: option.splits sum.splits)
qed

lemma check_triples_returns:
  "(\<forall>(k, v, oper) \<in> set ts. \<exists>a b. map_of ch k = Some a \<and> get_operator oper v a = Inr b)
     \<Longrightarrow> \<exists>b. check_triples ch ts = Inr b"
proof (induction ts)
  case Nil
  then show ?case by auto
next
  case (Cons t ts)
  obtain k v oper where t: "t = (k, v, oper)" by (cases t)
  from Cons.prems t obtain a b where a: "map_of ch k = Some a" "get_operator oper v a = Inr b"
    by auto
  from Cons have "\<exists>b. check_triples ch ts = Inr b" by simp
  with a t show ?case by (cases b) auto
qed



lemma check_operator_Unhashable:
  "check_operator insp Unhashable = Inl TypeError"
  by (simp add: check_operator_def)



lemma check_operators_kept:
  "check_operators insp ops = Inr True \<Longrightarrow> map Hashable (hashable_operators ops) = ops"
proof (induction ops)
  case Nil
  then show ?case by simp
next
  case (Cons op ops)
  then show ?case
    by (cases op) (auto simp: check_operator_Unhashable split: sum.splits if_splits)
qed

lemma zip3_all_nth:
  assumes "length vs = length ks" and "length ops = length ks"
  shows "(\<forall>(k, v, oper) \<in> set (zip ks (zip vs ops)). P k v oper)
           \<longleftrightarrow> (\<forall>i<length ks. P (ks ! i) (vs ! i) (ops ! i))"
proof -
  have "length ks = length vs" and "length vs = length ops"
    using assms by simp_all
  then show ?thesis
    by (induction ks vs ops arbitrary: P rule: list_induct3)
       (auto simp: less_Suc_eq_0_disj)
qed

lemma Condition_init_lengths:
  assumes "Condition_init insp d = Inr c"
  shows "length (vals c) = length (keys c) \<and> length (operators c) = length (keys c)"
proof -
  from assms obtain ks vs ops where
    c: "c = \<lparr>keys = ks, vals = vs, operators = hashable_operators ops\<rparr>"
    and len: "length vs = length ks" "length ops = length ks"
    and ok: "check_operators insp ops = Inr True"
    by (auto simp: Condition_init_def Let_def split: option.splits if_splits sum.splits)
  from check_operators_kept [OF ok] have "length (hashable_operators ops) = length ops"
    by (metis length_map)
  with c len show ?thesis by simp
qed

lemma first_satisfied_find:
  "first_satisfied self qs = Inr r \<Longrightarrow>
     r = find (\<lambda>q. check_condition self (condition q) = Inr True) qs"
  by (induction qs) (auto split: sum.splits if_splits)

lemma first_satisfied_total:
  "\<forall>q \<in> set qs. \<exists>b. check_condition self (condition q) = Inr b \<Longrightarrow>
     first_satisfied self qs = Inr (find (\<lambda>q. check_condition self (condition q) = Inr True) qs)"
  by (induction qs) (auto split: sum.splits if_splits)

lemma check_triples_append:
  "check_triples ch (pre @ ts) =
     (case check_triples ch pre of
        Inl e \<Rightarrow> Inl e
      | Inr b \<Rightarrow> if b then check_triples ch ts else Inr False)"
proof (induction pre)
  case Nil
  then show ?case by simp
next
  case (Cons t pre)
  obtain k v oper where t: "t = (k, v, oper)" by (cases t)
  show ?case using Cons t by (auto split: option.splits sum.splits)
qed

lemma check_triples_KeyError_iff:
  "check_triples ch ts = Inl KeyError \<longleftrightarrow>
     (\<exists>pre k v oper post. ts = pre @ (k, v, oper) # post \<and> map_of ch k = None
        \<and> check_triples ch pre = Inr True)"
proof
  assume "check_triples ch ts = Inl KeyError"
  then show "\<exists>pre k v oper post. ts = pre @ (k, v, oper) # post \<and> map_of ch k = None
        \<and> check_triples ch pre = Inr True"
  proof (induction ts)
    case Nil
    then show ?case by simp
  next
    case (Cons t ts)
    obtain k v oper where t: "t = (k, v, oper)" by (cases t)
    show ?case
    proof (cases "map_of ch k")
      case None
      with t have "t # ts = [] @ (k, v, oper) # ts \<and> map_of ch k = None
          \<and> check_triples ch [] = Inr True" by simp
      then show ?thesis by blast
    next
      case (Some a)
      with Cons.prems t have op: "get_operator oper v a = Inr True"
        and rest: "check_triples ch ts = Inl KeyError"
        by (auto split: sum.splits if_splits dest: get_operator_errors)
      from Cons.IH [OF rest] obtain pre k' v' oper' post where
        p: "ts = pre @ (k', v', oper') # post" "map_of ch k' = None" "check_triples ch pre = Inr True"
        by blast
      from p Some op t have "t # ts = (t # pre) @ (k', v', oper') # post \<and> map_of ch k' = None
          \<and> check_triples ch (t # pre) = Inr True" by simp
      then show ?thesis by blast
    qed
  qed
next
  assume "\<exists>pre k v oper post. ts = pre @ (k, v, oper) # post \<and> map_of ch k = None
        \<and> check_triples ch pre = Inr True"
  then show "check_triples ch ts = Inl KeyError"
    by (auto simp: check_triples_append)
qed

lemma first_satisfied_append:
  "first_satisfied self (pre @ qs) =
     (case first_satisfied self pre of
        Inl e \<Rightarrow> Inl e
      | Inr None \<Rightarrow> first_satisfied self qs
      | Inr (Some q) \<Rightarrow> Inr (Some q))"
  by (induction pre) (auto split: sum.splits option.splits)

lemma first_satisfied_none:
  "\<forall>u \<in> set pre. check_condition self (condition u) = Inr False \<Longrightarrow>
     first_satisfied self pre = Inr None"
  by (induction pre) auto

lemma ask_loop_append:
  "ask_loop (ks0 @ ks) self script =
     (case ask_loop ks0 self script of
        Inl e \<Rightarrow> Inl e
      | Inr (ok, self1, script1) \<Rightarrow>
          if ok then ask_loop ks self1 script1 else Inr (False, self1, script1))"
proof (induction ks0 arbitrary: self script)
  case Nil
  then show ?case by simp
next
  case (Cons k ks0)
  show ?case
    by (simp add: Cons.IH split: sum.splits option.splits prod.splits)
qed

lemma check_triples_mono:
  "map_of ch \<subseteq>\<^sub>m map_of ch' \<Longrightarrow> check_triples ch ts = Inr b \<Longrightarrow> check_triples ch' ts = Inr b"
proof (induction ts)
  case Nil
  then show ?case by simp
next
  case (Cons t ts)
  obtain k v oper where t: "t = (k, v, oper)" by (cases t)
  from Cons.prems t obtain a where a: "map_of ch k = Some a"
    by (auto split: option.splits)
  with Cons.prems(1) have a': "map_of ch' k = Some a"
    by (auto simp: map_le_def dom_def)
  from Cons a a' t show ?case
    by (auto split: sum.splits if_splits)
qed

lemma check_condition_mono:
  "map_of (choices self) \<subseteq>\<^sub>m map_of (choices self') \<Longrightarrow>
     check_condition self c = Inr b \<Longrightarrow> check_condition self' c = Inr b"
  by (cases c) (auto dest: check_triples_mono)

lemma first_satisfied_mono:
  "map_of (choices self) \<subseteq>\<^sub>m map_of (choices self') \<Longrightarrow>
     first_satisfied self qs = Inr r \<Longrightarrow> first_satisfied self' qs = Inr r"
proof (induction qs)
  case Nil
  then show ?case by simp
next
  case (Cons q qs)
  from Cons.prems obtain b where b: "check_condition self (condition q) = Inr b"
    by (auto split: sum.splits)
  with Cons.prems(1) have b': "check_condition self' (condition q) = Inr b"
    by (rule check_condition_mono)
  from Cons b b' show ?case by (auto split: if_splits)
qed

lemma which_question_mono:
  "questions self' = questions self \<Longrightarrow> map_of (choices self) \<subseteq>\<^sub>m map_of (choices self') \<Longrightarrow>
     which_question self k = Inr r \<Longrightarrow> which_question self' k = Inr r"
  by (auto simp: which_question_def split: option.splits dest: first_satisfied_mono)

lemma settled_mono:
  assumes "questions self' = questions self"
    and "map_of (choices self) \<subseteq>\<^sub>m map_of (choices self')"
    and "settled self k"
  shows "settled self' k"
proof -
  from assms(3) obtain r where r: "which_question self k = Inr r"
    by (auto simp: settled_def split: sum.splits)
  with assms(1,2) have r': "which_question self' k = Inr r"
    by (rule which_question_mono)
  show ?thesis
  proof (cases r)
    case None
    with r' show ?thesis by (simp add: settled_def)
  next
    case (Some q)
    with r assms(3) obtain a where "map_of (choices self) k = Some a"
      by (auto simp: settled_def)
    with assms(2) have "map_of (choices self') k = Some a"
      by (auto simp: map_le_def dom_def)
    with Some r' show ?thesis by (simp add: settled_def)
  qed
qed

lemma prompt_success:
  assumes "prompt self k opts p mult script = Inr (True, self', rest)"
  shows "\<exists>v. self' = self\<lparr>choices := AList.update k v (choices self)\<rparr>"
  using assms
  by (auto simp: prompt_def Let_def split: sum.splits prod.splits if_splits)

lemma update_fresh_le:
  "map_of ch k = None \<Longrightarrow> map_of ch \<subseteq>\<^sub>m map_of (AList.update k v ch)"
  by (auto simp: map_le_def update_conv')

lemma ask_loop_settled:
  "\<forall>k \<in> set ks. settled self k \<Longrightarrow> ask_loop ks self script = Inr (True, self, script)"
  by (induction ks) (auto simp: settled_def split: sum.splits option.splits)

lemma ask_loop_completes:
  "ask_loop ks self script = Inr (True, self', rest) \<Longrightarrow>
     questions self' = questions self
     \<and> map_of (choices self) \<subseteq>\<^sub>m map_of (choices self')
     \<and> (\<forall>k \<in> set ks. settled self' k)"
proof (induction ks arbitrary: self script)
  case Nil
  then show ?case by simp
next
  case (Cons k ks)
  from Cons.prems obtain r where r: "which_question self k = Inr r"
    by (auto split: sum.splits)
  show ?case
  proof (cases "r = None \<or> map_of (choices self) k \<noteq> None")
    case True
    with r Cons.prems have loop: "ask_loop ks self script = Inr (True, self', rest)"
      by (auto split: option.splits)
    from True r have "settled self k"
      by (auto simp: settled_def split: option.splits)
    with Cons.IH [OF loop] show ?thesis
      by (auto intro: settled_mono)
  next
    case False
    then obtain q where q: "r = Some q" and fresh: "map_of (choices self) k = None"
      by auto
    from Cons.prems r q fresh obtain self1 rest1 where
      p: "prompt self k (options q) [] (multiple q) script = Inr (True, self1, rest1)"
      and loop: "ask_loop ks self1 rest1 = Inr (True, self', rest)"
      by (auto split: sum.splits prod.splits if_splits)
    from prompt_success [OF p] obtain v where
      self1: "self1 = self\<lparr>choices := AList.update k v (choices self)\<rparr>" by blast
    have qs1: "questions self1 = questions self" by (simp add: self1)
    have le1: "map_of (choices self) \<subseteq>\<^sub>m map_of (choices self1)"
      using fresh by (simp add: self1 update_fresh_le)
    have "which_question self1 k = Inr (Some q)"
      using which_question_mono [OF qs1 le1] r q by simp
    moreover have "map_of (choices self1) k = Some v"
      by (simp add: self1 update_conv')
    ultimately have s1: "settled self1 k" by (simp add: settled_def)
    from Cons.IH [OF loop] have
      qs': "questions self' = questions self1"
      and le': "map_of (choices self1) \<subseteq>\<^sub>m map_of (choices self')"
      and rest: "\<forall>k \<in> set ks. settled self' k"
      by simp_all
    from settled_mono [OF qs' le' s1] rest qs' qs1 le1 le' show ?thesis
      by (auto intro: map_le_trans)
  qed
qed

lemma update_fresh_append:
  "map_of ch k = None \<Longrightarrow> AList.update k v ch = ch @ [(k, v)]"
  by (induction ch) (auto split: if_splits)

lemma prompt_back_result:
  assumes "prompt_title self k p = Inr title"
    and "pick_with mult opts title script = Inr ((v, i), rest)"
    and "i < 0"
  shows "prompt self k opts p mult script
           = Inr (False,
                  go_back (self\<lparr>choices := AList.update k v (choices self)\<rparr>)
                    (if mult \<and> py_truthy v then 0 else 1),
                  rest)"
  using assms by (simp add: prompt_def Let_def)

lemma go_back_fresh_0:
  "map_of (choices self) k = None \<Longrightarrow>
     go_back (self\<lparr>choices := AList.update k v (choices self)\<rparr>) 0 = self"
  by (simp add: go_back_def update_fresh_append)

lemma go_back_fresh_1:
  "map_of (choices self) k = None \<Longrightarrow>
     go_back (self\<lparr>choices := AList.update k v (choices self)\<rparr>) 1
       = self\<lparr>choices := butlast (choices self)\<rparr>"
  by (simp add: go_back_def update_fresh_append butlast_conv_take nat_diff_distrib' max_def)

lemma pick_with_back_value:
  assumes "pick_with mult opts title script = Inr ((v, i), rest)" and "i < 0"
  shows "if mult then \<exists>sel. v = VList sel else v = VNone"
proof (cases mult)
  case True
  with assms show ?thesis
    by (auto simp: pick_with_def split: sum.splits)
next
  case False
  show ?thesis
  proof (cases script)
    case Nil
    with assms False show ?thesis by (simp add: pick_with_def)
  next
    case (Cons a r)
    show ?thesis
    proof (cases a)
      case Back
      have "pick_with False opts title (Back # r) = Inr ((VNone, - 1), r)"
        by (simp add: pick_with_def)
      with assms Cons Back False show ?thesis by simp
    next
      case (Select n)
      have "pick_with False opts title (Select n # r)
              = (if n < length opts then Inr ((VStr (opts ! n), int n), r) else Inl BadIndex)"
        by (simp add: pick_with_def)
      with assms Cons Select False show ?thesis by (simp split: if_splits)
    qed
  qed
qed

lemma map_of_butlast_None:
  "map_of ch k = None \<Longrightarrow> map_of (butlast ch) k = None"
  by (auto simp: map_of_eq_None_iff dest: in_set_butlastD)

lemma map_of_butlast_last:
  "distinct (map fst ch) \<Longrightarrow> ch \<noteq> [] \<Longrightarrow> map_of (butlast ch) (fst (last ch)) = None"
proof -
  assume d: "distinct (map fst ch)" and ne: "ch \<noteq> []"
  then obtain xs x where ch: "ch = xs @ [x]"
    by (cases ch rule: rev_cases) auto
  with d have "fst x \<notin> fst ` set xs" by auto
  with ch show ?thesis by (simp add: map_of_eq_None_iff)
qed

lemma ask_loop_head_prompt:
  "which_question self k = Inr (Some q) \<Longrightarrow> map_of (choices self) k = None \<Longrightarrow>
     ask_loop (k # ks) self script
       = (case prompt self k (options q) [] (multiple q) script of
            Inl e \<Rightarrow> Inl e
          | Inr (ok, s2, r2) \<Rightarrow> if ok then ask_loop ks s2 r2 else Inr (False, s2, r2))"
  by (auto split: sum.splits prod.splits)

lemma ask_loop_skip_prefix:
  assumes "ask_loop pre self_a script_a = Inr (True, self, script)"
  shows "ask_loop (pre @ ks) self_a script_a = ask_loop ks self script"
    and "ask_loop (pre @ ks) self script2 = ask_loop ks self script2"
proof -
  show "ask_loop (pre @ ks) self_a script_a = ask_loop ks self script"
    using assms by (simp add: ask_loop_append)
  from ask_loop_completes [OF assms] have "\<forall>k \<in> set pre. settled self k" by simp
  then have "ask_loop pre self script2 = Inr (True, self, script2)"
    by (rule ask_loop_settled)
  then show "ask_loop (pre @ ks) self script2 = ask_loop ks self script2"
    by (simp add: ask_loop_append)
qed

lemma first_satisfied_error_iff:
  "first_satisfied self qs = Inl e \<longleftrightarrow>
     (\<exists>pre q post. qs = pre @ q # post
        \<and> (\<forall>u \<in> set pre. check_condition self (condition u) = Inr False)
        \<and> check_condition self (condition q) = Inl e)"
proof
  assume "first_satisfied self qs = Inl e"
  then show "\<exists>pre q post. qs = pre @ q # post
        \<and> (\<forall>u \<in> set pre. check_condition self (condition u) = Inr False)
        \<and> check_condition self (condition q) = Inl e"
  proof (induction qs)
    case Nil
    then show ?case by simp
  next
    case (Cons a qs)
    show ?case
    proof (cases "check_condition self (condition a)")
      case (Inl e')
      with Cons.prems have "e' = e" by simp
      with Inl have "a # qs = [] @ a # qs
          \<and> (\<forall>u \<in> set []. check_condition self (condition u) = Inr False)
          \<and> check_condition self (condition a) = Inl e" by simp
      then show ?thesis by blast
    next
      case (Inr b)
      with Cons.prems have nb: "\<not> b" and rest: "first_satisfied self qs = Inl e"
        by (auto split: if_splits)
      from Cons.IH [OF rest] obtain pre q post where
        p: "qs = pre @ q # post"
          "\<forall>u \<in> set pre. check_condition self (condition u) = Inr False"
          "check_condition self (condition q) = Inl e"
        by blast
      from p Inr nb have "a # qs = (a # pre) @ q # post
          \<and> (\<forall>u \<in> set (a # pre). check_condition self (condition u) = Inr False)
          \<and> check_condition self (condition q) = Inl e" by simp
      then show ?thesis by blast
    qed
  qed
next
  assume "\<exists>pre q post. qs = pre @ q # post
        \<and> (\<forall>u \<in> set pre. check_condition self (condition u) = Inr False)
        \<and> check_condition self (condition q) = Inl e"
  then show "first_satisfied self qs = Inl e"
    by (auto simp: first_satisfied_append first_satisfied_none)
qed

section \<open>Construction of conditions\<close>




section \<open>Going back\<close>

text \<open>
  Claim C9. With \<open>k\<close> recorded answers and \<open>n \<ge> 0\<close>, \<open>go_back(n)\<close> keeps the first
  \<open>max(k - n - 1, 0)\<close> entries of \<open>choices\<close> in their order, so it drops \<open>n + 1\<close>
  entries from the end (all of them when there are fewer), and it leaves the questions
  alone. When the picker signals back, \<open>prompt\<close> has already stored the picker's value
  under the current key: its result is \<open>go_back(0)\<close> or \<open>go_back(1)\<close> applied to the
  state that holds this tentative entry.
\<close>

theorem go_back_removes_one_more:
  "choices (go_back self (int n)) = take (length (choices self) - n - 1) (choices self)
   \<and> length (choices (go_back self (int n))) = length (choices self) - (n + 1)
   \<and> questions (go_back self (int n)) = questions self
   \<and> (\<forall>k opts p mult script title v i rest.
         prompt_title self k p = Inr title \<longrightarrow>
         pick_with mult opts title script = Inr ((v, i), rest) \<longrightarrow> i < 0 \<longrightarrow>
           (\<exists>m \<in> {0, 1}.
              prompt self k opts p mult script
                = Inr (False, go_back (self\<lparr>choices := AList.update k v (choices self)\<rparr>) m, rest))
           \<and> map_of (AList.update k v (choices self)) k = Some v)"
  by (auto simp: go_back_def Let_def nat_diff_distrib' max_def prompt_def update_Some_unfold)

theorem go_back_removes_one_more_witness:
  "choices (go_back (activities\<lparr>choices := [(''day'', VStr ''monday''), (''time'', VStr ''night'')]\<rparr>) 0)
     = [(''day'', VStr ''monday'')]
   \<and> (\<exists>m \<in> {0, 1}.
         prompt (activities\<lparr>choices := [(''day'', VStr ''monday'')]\<rparr>) ''time''
           [''morning'', ''night''] [] False [Back]
         = Inr (False,
                go_back (activities\<lparr>choices := [(''day'', VStr ''monday''), (''time'', VNone)]\<rparr>) m,
                []))"
proof -
  let ?s = "activities\<lparr>choices := [(''day'', VStr ''monday'')]\<rparr>"
  let ?t = "activities\<lparr>choices := [(''day'', VStr ''monday''), (''time'', VStr ''night'')]\<rparr>"
  obtain title where t: "prompt_title ?s ''time'' [] = Inr title"
    by (simp add: eval_defs)
  have p: "pick_with False [''morning'', ''night''] title [Back] = Inr ((VNone, - 1), [])"
    by (simp add: eval_defs)
  have neg: "(- 1 :: int) < 0" by simp
  have "\<exists>m \<in> {0, 1}.
          prompt ?s ''time'' [''morning'', ''night''] [] False [Back]
          = Inr (False, go_back (?s\<lparr>choices := AList.update ''time'' VNone (choices ?s)\<rparr>) m, [])"
    using go_back_removes_one_more [of ?s 0] t p neg by blast
  moreover have "choices (go_back ?t 0) = [(''day'', VStr ''monday'')]"
    using go_back_removes_one_more [of ?t 0] by simp
  ultimately show ?thesis by simp
qed

section \<open>Evaluation of conditions\<close>

text \<open>
  Claim C4. For a Condition the constructor returned and recorded answers that hold
  every key the condition names, evaluation returns true exactly when, for every
  index \<open>i\<close>, the operator of triple \<open>i\<close> applied to its value and the recorded answer
  of its key is true. When no operator call raises, the result is the truth value of
  that conjunction. A condition without triples evaluates to true.
\<close>

theorem check_condition_conjunction:
  assumes "Condition_init insp d = Inr c" and "set (keys c) \<subseteq> dom (map_of (choices self))"
  shows "(check_condition self (Some c) = Inr True \<longleftrightarrow>
            (\<forall>i<length (keys c).
               get_operator (operators c ! i) (vals c ! i)
                 (the (map_of (choices self) (keys c ! i))) = Inr True))
       \<and> ((\<forall>i<length (keys c). \<exists>b.
               get_operator (operators c ! i) (vals c ! i)
                 (the (map_of (choices self) (keys c ! i))) = Inr b)
            \<longrightarrow> check_condition self (Some c)
                  = Inr (\<forall>i<length (keys c).
                           get_operator (operators c ! i) (vals c ! i)
                             (the (map_of (choices self) (keys c ! i))) = Inr True))
       \<and> (keys c = [] \<longrightarrow> check_condition self (Some c) = Inr True)"
proof -
  let ?ch = "choices self"
  let ?call = "\<lambda>i. get_operator (operators c ! i) (vals c ! i) (the (map_of ?ch (keys c ! i)))"
  from assms(1) have len: "length (vals c) = length (keys c)" "length (operators c) = length (keys c)"
    by (simp_all add: Condition_init_lengths)
  have present: "\<And>i. i < length (keys c) \<Longrightarrow> \<exists>a. map_of ?ch (keys c ! i) = Some a"
    using assms(2) by (meson domD nth_mem subsetD)
  have "check_condition self (Some c) = Inr True \<longleftrightarrow>
          (\<forall>i<length (keys c). \<exists>a. map_of ?ch (keys c ! i) = Some a
              \<and> get_operator (operators c ! i) (vals c ! i) a = Inr True)"
    by (simp add: check_triples_True_iff triples_def zip3_all_nth [OF len])
  then have iff: "check_condition self (Some c) = Inr True \<longleftrightarrow> (\<forall>i<length (keys c). ?call i = Inr True)"
    using present by (metis option.sel)
  have ret: "\<exists>b. check_condition self (Some c) = Inr b" if "\<forall>i<length (keys c). \<exists>b. ?call i = Inr b"
  proof -
    have "\<forall>(k, v, oper) \<in> set (triples c). \<exists>a b. map_of ?ch k = Some a \<and> get_operator oper v a = Inr b"
      unfolding triples_def zip3_all_nth [OF len]
      using that present by (metis option.sel)
    then show ?thesis by (simp add: check_triples_returns)
  qed
  have "check_condition self (Some c) = Inr (\<forall>i<length (keys c). ?call i = Inr True)"
    if "\<forall>i<length (keys c). \<exists>b. ?call i = Inr b"
  proof -
    from ret [OF that] obtain b where b: "check_condition self (Some c) = Inr b" by blast
    with iff show ?thesis by (cases b) auto
  qed
  moreover have "keys c = [] \<longrightarrow> check_condition self (Some c) = Inr True"
    by (simp add: triples_def)
  ultimately show ?thesis using iff by blast
qed

theorem check_condition_conjunction_witness:
  "check_condition (activities\<lparr>choices := [(''day'', VStr ''saturday''), (''time'', VStr ''morning'')]\<rparr>)
     (Some saturday_morning) = Inr True
   \<and> check_condition (activities\<lparr>choices := [(''day'', VStr ''monday''), (''time'', VStr ''morning'')]\<rparr>)
     (Some saturday_morning) = Inr False"
proof -
  let ?d = "\<lparr>d_keys = Some [''day'', ''time''], d_vals = Some [VStr ''saturday'', VStr ''morning''],
             d_operators = None\<rparr>"
  let ?s = "activities\<lparr>choices := [(''day'', VStr ''saturday''), (''time'', VStr ''morning'')]\<rparr>"
  let ?t = "activities\<lparr>choices := [(''day'', VStr ''monday''), (''time'', VStr ''morning'')]\<rparr>"
  have c: "Condition_init Getargspec_absent ?d = Inr saturday_morning"
    by (simp add: Condition_init_def check_operator_def saturday_morning_def OPERATORS_def)
  have s: "set (keys saturday_morning) \<subseteq> dom (map_of (choices ?s))"
    and t: "set (keys saturday_morning) \<subseteq> dom (map_of (choices ?t))"
    by (simp_all add: saturday_morning_def)
  show ?thesis
    using check_condition_conjunction [OF c s] check_condition_conjunction [OF c t]
    by (simp add: saturday_morning_def OPERATORS_def triples_def)
qed

section \<open>Selecting the variant of a question\<close>

text \<open>
  Claim C3, as the code has it. For a registered key with the variant list \<open>qs\<close> (in
  registration order): whatever \<open>which_question\<close> returns is the first variant of \<open>qs\<close>
  whose condition evaluates to true against the current choices, and none when there
  is no such variant. It does return that whenever no evaluation of a variant's
  condition fails, and so under the caller contract: every key that a condition of a
  variant names is recorded in \<open>choices\<close>, and the operator calls return. It fails
  exactly when the condition of some variant fails to evaluate and the conditions of
  all variants before it evaluate to false, and then with that error; the variants
  behind it are not looked at. A variant without a condition evaluates to true in
  every state.
\<close>

theorem which_question_first_match:
  assumes "map_of (questions self) k = Some qs"
  shows "(\<forall>r. which_question self k = Inr r \<longrightarrow>
            r = find (\<lambda>q. check_condition self (condition q) = Inr True) qs)
       \<and> ((\<forall>q \<in> set qs. \<exists>b. check_condition self (condition q) = Inr b) \<longrightarrow>
            which_question self k
              = Inr (find (\<lambda>q. check_condition self (condition q) = Inr True) qs))
       \<and> ((\<forall>q \<in> set qs. \<forall>c. condition q = Some c \<longrightarrow>
               (\<forall>(name, v, oper) \<in> set (triples c).
                  \<exists>a b. map_of (choices self) name = Some a \<and> get_operator oper v a = Inr b))
            \<longrightarrow> which_question self k
                  = Inr (find (\<lambda>q. check_condition self (condition q) = Inr True) qs))
       \<and> (\<forall>e. which_question self k = Inl e \<longleftrightarrow>
            (\<exists>pre q post. qs = pre @ q # post
               \<and> (\<forall>u \<in> set pre. check_condition self (condition u) = Inr False)
               \<and> check_condition self (condition q) = Inl e))
       \<and> (\<forall>q. condition q = None \<longrightarrow> check_condition self (condition q) = Inr True)"
proof -
  have w: "which_question self k = first_satisfied self qs"
    using assms by (simp add: which_question_def)
  have contract: "first_satisfied self qs
       = Inr (find (\<lambda>q. check_condition self (condition q) = Inr True) qs)"
    if c: "\<forall>q \<in> set qs. \<forall>c. condition q = Some c \<longrightarrow>
               (\<forall>(name, v, oper) \<in> set (triples c).
                  \<exists>a b. map_of (choices self) name = Some a \<and> get_operator oper v a = Inr b)"
  proof -
    have "\<exists>b. check_condition self (condition q) = Inr b" if q: "q \<in> set qs" for q
    proof (cases "condition q")
      case None
      then show ?thesis by auto
    next
      case (Some c')
      with c q have "\<forall>(name, v, oper) \<in> set (triples c').
                  \<exists>a b. map_of (choices self) name = Some a \<and> get_operator oper v a = Inr b"
        by blast
      then have "\<exists>b. check_triples (choices self) (triples c') = Inr b"
        by (rule check_triples_returns)
      with Some show ?thesis by simp
    qed
    then show ?thesis by (simp add: first_satisfied_total)
  qed
  have rest: "(\<forall>r. first_satisfied self qs = Inr r \<longrightarrow>
            r = find (\<lambda>q. check_condition self (condition q) = Inr True) qs)
       \<and> ((\<forall>q \<in> set qs. \<exists>b. check_condition self (condition q) = Inr b) \<longrightarrow>
            first_satisfied self qs
              = Inr (find (\<lambda>q. check_condition self (condition q) = Inr True) qs))"
    by (auto dest: first_satisfied_find simp: first_satisfied_total)
  have err: "\<forall>e. first_satisfied self qs = Inl e \<longleftrightarrow>
            (\<exists>pre q post. qs = pre @ q # post
               \<and> (\<forall>u \<in> set pre. check_condition self (condition u) = Inr False)
               \<and> check_condition self (condition q) = Inl e)"
    by (simp add: first_satisfied_error_iff)
  have plain: "\<forall>q. condition q = None \<longrightarrow> check_condition self (condition q) = Inr True"
    by simp
  show ?thesis
    unfolding w
    apply (intro conjI)
        apply (rule rest [THEN conjunct1])
       apply (rule rest [THEN conjunct2])
      apply (rule impI)
      apply (erule contract)
     apply (rule err)
    apply (rule plain)
    done
qed

text \<open>
  The claim as it was stated fails in a state in which a condition cannot be
  evaluated. With only \<open>day\<close> recorded, \<open>which_question\<close> fails for \<open>activities\<close> at the
  lookup of \<open>time\<close>; and a variant without a condition behind a variant whose condition
  fails is the first whose condition evaluates to true, yet it is not returned.
\<close>

theorem which_question_first_match_counterexample:
  "which_question (activities\<lparr>choices := [(''day'', VStr ''saturday'')]\<rparr>) ''activities''
     = Inl KeyError
   \<and> which_question
        \<lparr>questions =
           [(''activities'',
             [q_night,
              \<lparr>key = ''activities'', options = [''sleep''], multiple = False,
               condition = None\<rparr>])],
         choices = []\<rparr> ''activities''
     = Inl KeyError
   \<and> find (\<lambda>q. check_condition
                  \<lparr>questions =
                     [(''activities'',
                       [q_night,
                        \<lparr>key = ''activities'', options = [''sleep''], multiple = False,
                         condition = None\<rparr>])],
                   choices = []\<rparr> (condition q) = Inr True)
        [q_night,
         \<lparr>key = ''activities'', options = [''sleep''], multiple = False, condition = None\<rparr>]
     = Some \<lparr>key = ''activities'', options = [''sleep''], multiple = False, condition = None\<rparr>"
  by (simp add: eval_defs)

theorem which_question_first_match_witness:
  "which_question (activities\<lparr>choices := [(''day'', VStr ''saturday''), (''time'', VStr ''morning'')]\<rparr>)
     ''activities'' = Inr (Some q_saturday)
   \<and> which_question (activities\<lparr>choices := [(''day'', VStr ''monday''), (''time'', VStr ''morning'')]\<rparr>)
     ''activities'' = Inr (Some q_morning)
   \<and> which_question (activities\<lparr>choices := [(''day'', VStr ''monday''), (''time'', VStr ''noon'')]\<rparr>)
     ''activities'' = Inr None"
proof -
  let ?s = "activities\<lparr>choices := [(''day'', VStr ''saturday''), (''time'', VStr ''morning'')]\<rparr>"
  let ?t = "activities\<lparr>choices := [(''day'', VStr ''monday''), (''time'', VStr ''morning'')]\<rparr>"
  let ?u = "activities\<lparr>choices := [(''day'', VStr ''monday''), (''time'', VStr ''noon'')]\<rparr>"
  have qs: "map_of (questions ?s) ''activities'' = Some [q_night, q_saturday, q_morning]"
    "map_of (questions ?t) ''activities'' = Some [q_night, q_saturday, q_morning]"
    "map_of (questions ?u) ''activities'' = Some [q_night, q_saturday, q_morning]"
    by (simp_all add: activities_def)
  have ev: "check_condition ?s (condition q_night) = Inr False"
    "check_condition ?s (condition q_saturday) = Inr True"
    "check_condition ?s (condition q_morning) = Inr True"
    "check_condition ?t (condition q_night) = Inr False"
    "check_condition ?t (condition q_saturday) = Inr False"
    "check_condition ?t (condition q_morning) = Inr True"
    "check_condition ?u (condition q_night) = Inr False"
    "check_condition ?u (condition q_saturday) = Inr False"
    "check_condition ?u (condition q_morning) = Inr False"
    by (simp_all add: eval_defs)
  let ?holds = "\<lambda>self q. check_condition self (condition q) = Inr True"
  have "which_question ?s ''activities'' = Inr (find (?holds ?s) [q_night, q_saturday, q_morning])"
    using which_question_first_match [OF qs(1)] ev(1-3) by auto
  moreover
  have "which_question ?t ''activities'' = Inr (find (?holds ?t) [q_night, q_saturday, q_morning])"
    using which_question_first_match [OF qs(2)] ev(4-6) by auto
  moreover
  have "which_question ?u ''activities'' = Inr (find (?holds ?u) [q_night, q_saturday, q_morning])"
    using which_question_first_match [OF qs(3)] ev(7-9) by auto
  ultimately show ?thesis
    using ev by simp
qed

section \<open>Questions with half a condition\<close>

text \<open>
  Claim C10. When the condition dictionary of a Question holds \<open>keys\<close> but not \<open>vals\<close>,
  or \<open>vals\<close> but not \<open>keys\<close>, the constructor returns a Question without a condition,
  whatever the lists and operators in the dictionary are: no Condition is built, no
  error is raised, and the Question's condition evaluates to true in every state.
\<close>

theorem Question_init_partial_condition:
  "(d_keys d = None) \<noteq> (d_vals d = None) \<Longrightarrow>
     Question_init insp k opts mult d
       = Inr \<lparr>key = k, options = opts, multiple = mult, condition = None\<rparr>
     \<and> (\<forall>self question. Question_init insp k opts mult d = Inr question \<longrightarrow>
           check_condition self (condition question) = Inr True)"
  by (auto simp: Question_init_def)

theorem Question_init_partial_condition_witness:
  "Question_init Getargspec_present ''activities'' [''eat granola''] True
     \<lparr>d_keys = Some [''day'', ''time''], d_vals = None,
      d_operators = Some [Hashable (Sym ''<'')]\<rparr>
   = Inr \<lparr>key = ''activities'', options = [''eat granola''], multiple = True, condition = None\<rparr>
   \<and> Question_init Getargspec_present ''activities'' [''eat granola''] True
     \<lparr>d_keys = None, d_vals = Some [VStr ''night''], d_operators = None\<rparr>
   = Inr \<lparr>key = ''activities'', options = [''eat granola''], multiple = True, condition = None\<rparr>
   \<and> Question_init Getargspec_present ''activities'' [''eat granola''] True
     \<lparr>d_keys = Some [''day'', ''time''], d_vals = Some [],
      d_operators = Some [Hashable (Sym ''<'')]\<rparr>
   = Inl AssertionError"
  using Question_init_partial_condition
          [where d = "\<lparr>d_keys = Some [''day'', ''time''], d_vals = None,
                       d_operators = Some [Hashable (Sym ''<'')]\<rparr>"
             and insp = Getargspec_present and k = "''activities''"
             and opts = "[''eat granola'']" and mult = True]
        Question_init_partial_condition
          [where d = "\<lparr>d_keys = None, d_vals = Some [VStr ''night''], d_operators = None\<rparr>"
             and insp = Getargspec_present and k = "''activities''"
             and opts = "[''eat granola'']" and mult = True]
  by (simp add: Question_init_def Condition_init_def)

section \<open>Selecting all\<close>

text \<open>
  Claim C7. In the loop of \<open>back_pick_multiple\<close>, whatever the pool and the selections
  accumulated so far: when the user confirms an entry equal to the \<open>ALL\<close> marker, the
  loop returns at once the list holding only the marker, with the entry's index, which
  is not negative. The marker is the first entry of the initial pool, and with the
  default marker \<open>prompt\<close>'s picker returns the list holding only the string \<open>all\<close>.
\<close>

theorem pick_all_returns_marker:
  "(\<forall>n. n < length pool \<and> pool ! n = all_mark \<longrightarrow>
         pick_loop pool acc title all_mark done_mark (Select n # rest)
           = Inr (([all_mark], int n), rest)
         \<and> \<not> int n < 0)
   \<and> back_pick_multiple opts title all_mark done_mark (Select 0 # rest)
       = Inr (([all_mark], 0), rest)
   \<and> pick_with True opts title (Select 0 # rest) = Inr ((VList [''all''], 0), rest)"
  by (simp add: pick_loop.simps back_pick_multiple_def pick_with_def ALL_default_def)

theorem pick_all_returns_marker_witness:
  "pick_with True [''eat granola'', ''go to work''] [] [Select 1, Select 0, Select 2]
     = Inr ((VList [''all''], 0), [Select 2])"
proof -
  have "pick_loop [''all'', ''go to work'', ''done...''] [''eat granola''] [] ''all'' ''done...''
          (Select 0 # [Select 2]) = Inr (([''all''], int 0), [Select 2])"
    using pick_all_returns_marker
            [of "[''all'', ''go to work'', ''done...'']" "''all''" "[''eat granola'']" "[]"
                "''done...''" "[Select 2]"]
    by simp
  then show ?thesis
    by (simp add: pick_with_def back_pick_multiple_def ALL_default_def DONE_default_def
          pick_loop.simps [of "[''all'', ''eat granola'', ''go to work'', ''done...'']"])
qed

section \<open>Conditions over unanswered keys\<close>

text \<open>
  Claim C8, as the code has it. The triples of a condition are evaluated in order and
  the first one that does not hold ends the evaluation with false. So evaluation fails
  with \<open>KeyError\<close> exactly when some triple names a key that is absent from \<open>choices\<close>
  and every triple before it has its key recorded and its operator true; an absent key
  behind a triple that is false is never looked up: when the triples before some triple
  are true and that triple has its key recorded and its operator false, the result is
  false whatever follows. The failure is not caught:
  \<open>which_question\<close> fails with the error of the first variant whose condition does not
  evaluate to false, and the loop of \<open>ask_questions\<close> fails with the error of
  \<open>which_question\<close> at the first key it does not get past.
\<close>

theorem check_condition_missing_key:
  "(check_condition self (Some c) = Inl KeyError \<longleftrightarrow>
      (\<exists>pre k v oper post. triples c = pre @ (k, v, oper) # post
          \<and> map_of (choices self) k = None
          \<and> (\<forall>(k', v', oper') \<in> set pre.
                \<exists>a. map_of (choices self) k' = Some a \<and> get_operator oper' v' a = Inr True)))
   \<and> (\<forall>name pre question post e.
         map_of (questions self) name = Some (pre @ question # post)
         \<and> (\<forall>u \<in> set pre. check_condition self (condition u) = Inr False)
         \<and> check_condition self (condition question) = Inl e
         \<longrightarrow> which_question self name = Inl e)
   \<and> (\<forall>ks0 self0 script script1 name ks e.
         ask_loop ks0 self0 script = Inr (True, self, script1)
         \<and> which_question self name = Inl e
         \<longrightarrow> ask_loop (ks0 @ name # ks) self0 script = Inl e)
   \<and> (\<forall>pre name v oper post a.
         triples c = pre @ (name, v, oper) # post
         \<and> (\<forall>(k', v', oper') \<in> set pre.
               \<exists>a'. map_of (choices self) k' = Some a' \<and> get_operator oper' v' a' = Inr True)
         \<and> map_of (choices self) name = Some a
         \<and> get_operator oper v a = Inr False
         \<longrightarrow> check_condition self (Some c) = Inr False)"
proof -
  have stops: "check_triples ch (pre @ (name, v, oper) # post) = Inr False"
    if "\<forall>(k', v', oper') \<in> set pre.
          \<exists>a'. map_of ch k' = Some a' \<and> get_operator oper' v' a' = Inr True"
      and "map_of ch name = Some a" and "get_operator oper v a = Inr False"
    for ch pre name v oper post a
  proof -
    from that(1) have "check_triples ch pre = Inr True"
      by (simp add: check_triples_True_iff)
    with that(2,3) show ?thesis by (simp add: check_triples_append)
  qed
  have 4: "\<forall>pre name v oper post a.
         triples c = pre @ (name, v, oper) # post
         \<and> (\<forall>(k', v', oper') \<in> set pre.
               \<exists>a'. map_of (choices self) k' = Some a' \<and> get_operator oper' v' a' = Inr True)
         \<and> map_of (choices self) name = Some a
         \<and> get_operator oper v a = Inr False
         \<longrightarrow> check_condition self (Some c) = Inr False"
    using stops by simp
  have 123: "(check_condition self (Some c) = Inl KeyError \<longleftrightarrow>
      (\<exists>pre k v oper post. triples c = pre @ (k, v, oper) # post
          \<and> map_of (choices self) k = None
          \<and> (\<forall>(k', v', oper') \<in> set pre.
                \<exists>a. map_of (choices self) k' = Some a \<and> get_operator oper' v' a = Inr True)))
   \<and> (\<forall>name pre question post e.
         map_of (questions self) name = Some (pre @ question # post)
         \<and> (\<forall>u \<in> set pre. check_condition self (condition u) = Inr False)
         \<and> check_condition self (condition question) = Inl e
         \<longrightarrow> which_question self name = Inl e)
   \<and> (\<forall>ks0 self0 script script1 name ks e.
         ask_loop ks0 self0 script = Inr (True, self, script1)
         \<and> which_question self name = Inl e
         \<longrightarrow> ask_loop (ks0 @ name # ks) self0 script = Inl e)"
    by (auto simp: check_triples_KeyError_iff check_triples_True_iff which_question_def
          first_satisfied_append first_satisfied_none ask_loop_append)
  show ?thesis
    by (rule conjI [OF 123 [THEN conjunct1]
          conjI [OF 123 [THEN conjunct2, THEN conjunct1]
            conjI [OF 123 [THEN conjunct2, THEN conjunct2] 4]]])
qed

text \<open>
  The claim as it was stated fails: with only \<open>day = monday\<close> recorded, the condition
  \<open>day == saturday and time == morning\<close> names the absent key \<open>time\<close> and evaluates to
  false.
\<close>

theorem check_condition_missing_key_counterexample:
  "check_condition (activities\<lparr>choices := [(''day'', VStr ''monday'')]\<rparr>) (Some saturday_morning)
     = Inr False
   \<and> map_of (choices (activities\<lparr>choices := [(''day'', VStr ''monday'')]\<rparr>)) ''time'' = None
   \<and> keys saturday_morning = [''day'', ''time'']"
  by (simp add: eval_defs)

theorem check_condition_missing_key_witness:
  "check_condition (activities\<lparr>choices := [(''day'', VStr ''saturday'')]\<rparr>) (Some saturday_morning)
     = Inl KeyError
   \<and> which_question (activities\<lparr>choices := [(''day'', VStr ''saturday'')]\<rparr>) ''activities''
     = Inl KeyError
   \<and> ask_loop ([''day''] @ ''activities'' # [''time''])
        (activities\<lparr>choices := [(''day'', VStr ''saturday'')]\<rparr>) [] = Inl KeyError
   \<and> check_condition (activities\<lparr>choices := [(''day'', VStr ''friday'')]\<rparr>)
        (Some saturday_morning) = Inr False"
proof -
  let ?s = "activities\<lparr>choices := [(''day'', VStr ''saturday'')]\<rparr>"
  have tr: "triples saturday_morning
              = [(''day'', VStr ''saturday'', Sym ''=='')] @ (''time'', VStr ''morning'', Sym ''=='') # []"
    by (simp add: eval_defs)
  have a: "map_of (choices ?s) ''time'' = None" by simp
  have b: "\<forall>(k', v', oper') \<in> set [(''day'', VStr ''saturday'', Sym ''=='')].
             \<exists>a. map_of (choices ?s) k' = Some a \<and> get_operator oper' v' a = Inr True"
    by (simp add: OPERATORS_def)
  have c1: "check_condition ?s (Some saturday_morning) = Inl KeyError"
    using check_condition_missing_key [of ?s saturday_morning, THEN conjunct1] tr a b
    by blast
  have n: "check_condition ?s (condition q_night) = Inl KeyError"
    by (simp add: eval_defs)
  have qs: "map_of (questions ?s) ''activities'' = Some ([] @ q_night # [q_saturday, q_morning])"
    by (simp add: activities_def)
  have c2: "which_question ?s ''activities'' = Inl KeyError"
    using check_condition_missing_key
            [of ?s saturday_morning, THEN conjunct2, THEN conjunct1, rule_format,
             of "''activities''" "[]" q_night "[q_saturday, q_morning]" KeyError]
          qs n
    by simp
  have l: "ask_loop [''day''] ?s [] = Inr (True, ?s, [])"
    by (simp add: eval_defs)
  have c3: "ask_loop ([''day''] @ ''activities'' # [''time'']) ?s [] = Inl KeyError"
    using check_condition_missing_key
            [of ?s saturday_morning, THEN conjunct2, THEN conjunct2, THEN conjunct1,
             rule_format, of "[''day'']" ?s "[]" "[]" "''activities''" KeyError "[''time'']"]
          l c2
    by simp
  let ?f = "activities\<lparr>choices := [(''day'', VStr ''friday'')]\<rparr>"
  have tr': "triples saturday_morning
              = [] @ (''day'', VStr ''saturday'', Sym ''=='') # [(''time'', VStr ''morning'', Sym ''=='')]"
    by (simp add: eval_defs)
  have c4: "check_condition ?f (Some saturday_morning) = Inr False"
    using check_condition_missing_key
            [of ?f saturday_morning, THEN conjunct2, THEN conjunct2, THEN conjunct2,
             rule_format, of "[]" "''day''" "VStr ''saturday''" "Sym ''==''"
               "[(''time'', VStr ''morning'', Sym ''=='')]" "VStr ''friday''"]
          tr'
    by (simp add: OPERATORS_def)
  from c1 c2 c3 c4 show ?thesis by simp
qed

section \<open>A second pass after a completed one\<close>

text \<open>
  Claim C6. When a pass of \<open>ask_questions\<close> returns true (no prompt of the pass was
  left with the back signal), a further pass from the state it produced returns true
  again, leaves the state as it is and consumes nothing of the user's script: it does
  not prompt. This holds for every questionnaire, whichever keys its conditions name.
\<close>

theorem ask_questions_idempotent:
  "ask_questions self script = Inr (True, self', rest) \<Longrightarrow>
     ask_questions self' script2 = Inr (True, self', script2)"
proof -
  assume "ask_questions self script = Inr (True, self', rest)"
  then have "ask_loop (map fst (questions self)) self script = Inr (True, self', rest)"
    by (simp add: ask_questions_def)
  from ask_loop_completes [OF this]
  have "questions self' = questions self"
    and "\<forall>k \<in> set (map fst (questions self)). settled self' k"
    by simp_all
  then show ?thesis
    by (simp add: ask_questions_def ask_loop_settled)
qed

theorem ask_questions_idempotent_witness:
  "ask_questions activities [Select 2, Select 0, Select 2, Select 3]
     = Inr (True,
            activities\<lparr>choices := [(''day'', VStr ''saturday''), (''time'', VStr ''morning''),
                                   (''activities'', VList [''watch footy match''])]\<rparr>, [])
   \<and> ask_questions
        (activities\<lparr>choices := [(''day'', VStr ''saturday''), (''time'', VStr ''morning''),
                                (''activities'', VList [''watch footy match''])]\<rparr>) []
     = Inr (True,
            activities\<lparr>choices := [(''day'', VStr ''saturday''), (''time'', VStr ''morning''),
                                   (''activities'', VList [''watch footy match''])]\<rparr>, [])"
proof -
  let ?s = "activities\<lparr>choices := [(''day'', VStr ''saturday''), (''time'', VStr ''morning''),
                                   (''activities'', VList [''watch footy match''])]\<rparr>"
  have first: "ask_questions activities [Select 2, Select 0, Select 2, Select 3] = Inr (True, ?s, [])"
    by (simp add: eval_defs)
  from ask_questions_idempotent [OF first, of "[]"] first show ?thesis by simp
qed

section \<open>Registering questions\<close>

text \<open>
  Claim C1, as the code has it. \<open>add_question\<close> takes one argument, a Question that
  the caller has built with \<open>Question(key, options, multiple, condition)\<close>. It appends
  the Question to the variant list registered under the Question's key, after the
  variants that are there, and registers a new key behind all others; every other key
  keeps its variants, \<open>choices\<close> is left alone, and the call returns \<open>None\<close>. A Question
  that the constructor returned carries the key, the options and the multiplicity it
  was given, and the Condition built from its dictionary when the dictionary holds
  both \<open>keys\<close> and \<open>vals\<close>.
\<close>

theorem add_question_registers:
  "map_of (questions (add_question self question)) (key question)
     = Some ((case map_of (questions self) (key question) of None \<Rightarrow> [] | Some qs \<Rightarrow> qs)
             @ [question])
   \<and> (\<forall>name. name \<noteq> key question \<longrightarrow>
         map_of (questions (add_question self question)) name = map_of (questions self) name)
   \<and> map fst (questions (add_question self question))
       = (if key question \<in> set (map fst (questions self)) then map fst (questions self)
          else map fst (questions self) @ [key question])
   \<and> choices (add_question self question) = choices self
   \<and> add_question_call self [AQuestion question] [] = Inr (ANone, add_question self question)
   \<and> (\<forall>insp k opts mult d.
         Question_init insp k opts mult d = Inr question \<longrightarrow>
           key question = k \<and> options question = opts \<and> multiple question = mult
           \<and> (if d_keys d \<noteq> None \<and> d_vals d \<noteq> None
               then \<exists>c. Condition_init insp d = Inr c \<and> condition question = Some c
               else condition question = None))"
proof -
  have 1: "map_of (questions (add_question self question)) (key question)
     = Some ((case map_of (questions self) (key question) of None \<Rightarrow> [] | Some qs \<Rightarrow> qs)
             @ [question])"
    by (auto simp: add_question_def update_conv' map_add_def split: option.splits)
  have 2: "\<forall>name. name \<noteq> key question \<longrightarrow>
         map_of (questions (add_question self question)) name = map_of (questions self) name"
    by (auto simp: add_question_def update_conv' map_add_def split: option.splits)
  have 3: "map fst (questions (add_question self question))
       = (if key question \<in> set (map fst (questions self)) then map fst (questions self)
          else map fst (questions self) @ [key question])"
    by (auto simp: add_question_def update_keys map_of_eq_None_iff split: option.splits
          dest: map_of_SomeD)
  have 4: "choices (add_question self question) = choices self"
    by (simp add: add_question_def split: option.splits)
  have 5: "add_question_call self [AQuestion question] [] = Inr (ANone, add_question self question)"
    by (simp add: add_question_call_def bind_question_def)
  have 6: "\<forall>insp k opts mult d.
         Question_init insp k opts mult d = Inr question \<longrightarrow>
           key question = k \<and> options question = opts \<and> multiple question = mult
           \<and> (if d_keys d \<noteq> None \<and> d_vals d \<noteq> None
               then \<exists>c. Condition_init insp d = Inr c \<and> condition question = Some c
               else condition question = None)"
    by (auto simp: Question_init_def split: sum.splits if_splits)
  from 1 2 3 4 5 6 show ?thesis by blast
qed

theorem add_question_registers_witness:
  "add_question (add_question (add_question (add_question (add_question Questionnaire_init q_day)
      q_time) q_night) q_saturday) q_morning = activities
   \<and> map_of (questions activities) ''activities'' = Some [q_night, q_saturday, q_morning]
   \<and> Question_init Getargspec_absent ''activities''
        [''eat granola'', ''get dressed'', ''go to work''] True
        \<lparr>d_keys = Some [''time''], d_vals = Some [VStr ''morning''], d_operators = None\<rparr>
      = Inr q_morning"
proof -
  let ?s = "\<lparr>questions = [(''day'', [q_day]), (''time'', [q_time]),
                           (''activities'', [q_night, q_saturday])], choices = []\<rparr>"
  have k: "key q_morning = ''activities''" by (simp add: q_morning_def)
  have s: "add_question (add_question (add_question (add_question Questionnaire_init q_day)
      q_time) q_night) q_saturday = ?s"
    by (simp add: add_question_def Questionnaire_init_def q_day_def q_time_def q_night_def
          q_saturday_def)
  have a: "add_question ?s q_morning = activities"
    by (simp add: add_question_def activities_def k)
  have "map_of (questions (add_question ?s q_morning)) ''activities''
          = Some [q_night, q_saturday, q_morning]"
    using add_question_registers [of ?s q_morning] by (simp add: k)
  moreover
  have "Question_init Getargspec_absent ''activities''
        [''eat granola'', ''get dressed'', ''go to work''] True
        \<lparr>d_keys = Some [''time''], d_vals = Some [VStr ''morning''], d_operators = None\<rparr>
      = Inr q_morning"
    by (simp add: Question_init_def Condition_init_def check_operator_def q_morning_def
          morning_def OPERATORS_def)
  ultimately show ?thesis using s a by simp
qed

text \<open>
  The claim as it was stated fails: the calls of \<open>examples/activities_client.py\<close>, with
  a key and the keywords \<open>options\<close> and \<open>prompter\<close>, are rejected when the arguments are
  bound, and a call that is accepted returns \<open>None\<close>, not a handle.
\<close>

theorem add_question_call_counterexample:
  "add_question_call Questionnaire_init [AStr ''day'']
     [(''options'', AStrs [''monday'', ''friday'', ''saturday''])] = Inl TypeError
   \<and> add_question_call Questionnaire_init [AStr ''activities'']
     [(''prompter'', AStr ''multiple''),
      (''options'', AStrs [''eat granola'', ''get dressed'', ''go to work''])] = Inl TypeError
   \<and> add_question_call Questionnaire_init [AQuestion q_day] []
     = Inr (ANone, \<lparr>questions = [(''day'', [q_day])], choices = []\<rparr>)"
  by (simp add: add_question_call_def bind_question_def add_question_def Questionnaire_init_def
        q_day_def)

section \<open>Back navigation in a prompt\<close>

text \<open>
  Claim C2, as the code has it. When the picker signals back, \<open>prompt\<close> returns false
  and leaves the questions alone, for every state and key; the picker's value is \<open>None\<close>
  for a single choice and the list of the selections made so far for a multiple choice.
  For a key that is not yet in \<open>choices\<close> (the loop of \<open>ask_questions\<close> prompts no
  other):
  \<^item> after a multiple choice with at least one selection the state is unchanged;
  \<^item> otherwise \<open>choices\<close> loses exactly its last entry, the key itself is not recorded,
    the key of the lost entry is no longer in \<open>choices\<close> (its keys being distinct), and
    when the lost entry was the answer of a prompt for \<open>K\<close>, the state is again the one
    in which that prompt was made;
  \<^item> a pass that went past the keys \<open>pre\<close> and is left at \<open>k\<close> after selections returns
    false, and the next pass goes past \<open>pre\<close> again and prompts \<open>k\<close>;
  \<^item> a pass that went past \<open>pre\<close>, had \<open>K\<close> answered, went past \<open>mid\<close> without a prompt
    and is left at \<open>k\<close> without a selection returns false with the state in which \<open>K\<close>
    was prompted, and the next pass goes past \<open>pre\<close> again and prompts \<open>K\<close>.
\<close>

theorem prompt_back_navigation:
  assumes "prompt_title self k p = Inr title"
    and "pick_with mult opts title script = Inr ((v, i), rest)"
    and "i < 0"
  shows "(\<exists>self'. prompt self k opts p mult script = Inr (False, self', rest)
            \<and> questions self' = questions self)
      \<and> (if mult then \<exists>sel. v = VList sel else v = VNone)
      \<and> (map_of (choices self) k = None \<longrightarrow>
           (mult \<and> v \<noteq> VList [] \<longrightarrow>
              prompt self k opts p mult script = Inr (False, self, rest))
           \<and> (\<not> (mult \<and> v \<noteq> VList []) \<longrightarrow>
                prompt self k opts p mult script
                  = Inr (False, self\<lparr>choices := butlast (choices self)\<rparr>, rest)
                \<and> map_of (butlast (choices self)) k = None
                \<and> (distinct (map fst (choices self)) \<and> choices self \<noteq> [] \<longrightarrow>
                     map_of (butlast (choices self)) (fst (last (choices self))) = None)
                \<and> (\<forall>prev K optsK pK multK script_p.
                      map_of (choices prev) K = None
                      \<and> prompt prev K optsK pK multK script_p = Inr (True, self, script)
                      \<longrightarrow> prompt self k opts p mult script = Inr (False, prev, rest)))
           \<and> (\<forall>qk pre post self_a script_a.
                 p = [] \<and> opts = options qk \<and> mult = multiple qk
                 \<and> which_question self k = Inr (Some qk)
                 \<and> (mult \<and> v \<noteq> VList [])
                 \<and> ask_loop pre self_a script_a = Inr (True, self, script)
                 \<longrightarrow> ask_loop (pre @ k # post) self_a script_a = Inr (False, self, rest)
                     \<and> ask_loop (pre @ k # post) self rest
                         = (case prompt self k (options qk) [] (multiple qk) rest of
                              Inl e \<Rightarrow> Inl e
                            | Inr (ok, self_n, script_n) \<Rightarrow>
                                if ok then ask_loop post self_n script_n else Inr (False, self_n, script_n)))
           \<and> (\<forall>qk pre K qK mid post self_a script_a prev script_p.
                 p = [] \<and> opts = options qk \<and> mult = multiple qk
                 \<and> which_question self k = Inr (Some qk)
                 \<and> \<not> (mult \<and> v \<noteq> VList [])
                 \<and> ask_loop pre self_a script_a = Inr (True, prev, script_p)
                 \<and> which_question prev K = Inr (Some qK)
                 \<and> map_of (choices prev) K = None
                 \<and> prompt prev K (options qK) [] (multiple qK) script_p = Inr (True, self, script)
                 \<and> ask_loop mid self script = Inr (True, self, script)
                 \<longrightarrow> ask_loop (pre @ K # mid @ k # post) self_a script_a = Inr (False, prev, rest)
                     \<and> ask_loop (pre @ K # mid @ k # post) prev rest
                         = (case prompt prev K (options qK) [] (multiple qK) rest of
                              Inl e \<Rightarrow> Inl e
                            | Inr (ok, self_n, script_n) \<Rightarrow>
                                if ok then ask_loop (mid @ k # post) self_n script_n
                                else Inr (False, self_n, script_n))))"
proof -
  define stay where "stay \<longleftrightarrow> mult \<and> v \<noteq> VList []"
  define self' where
    "self' = go_back (self\<lparr>choices := AList.update k v (choices self)\<rparr>)
               (if mult \<and> py_truthy v then 0 else 1)"
  have res: "prompt self k opts p mult script = Inr (False, self', rest)"
    unfolding self'_def using assms by (rule prompt_back_result)
  have qs: "questions self' = questions self"
    by (simp add: self'_def go_back_def Let_def)
  from res qs have ret: "\<exists>self'. prompt self k opts p mult script = Inr (False, self', rest)
            \<and> questions self' = questions self"
    by blast
  have val: "if mult then \<exists>sel. v = VList sel else v = VNone"
    using assms(2,3) by (rule pick_with_back_value)
  have truthy: "(mult \<and> py_truthy v) = stay"
    using val by (auto simp: stay_def split: if_splits)
  have fresh: "(stay \<longrightarrow> prompt self k opts p mult script = Inr (False, self, rest))
        \<and> (\<not> stay \<longrightarrow>
              prompt self k opts p mult script
                = Inr (False, self\<lparr>choices := butlast (choices self)\<rparr>, rest)
              \<and> map_of (butlast (choices self)) k = None
              \<and> (distinct (map fst (choices self)) \<and> choices self \<noteq> [] \<longrightarrow>
                   map_of (butlast (choices self)) (fst (last (choices self))) = None)
              \<and> (\<forall>prev K optsK pK multK script_p.
                    map_of (choices prev) K = None
                    \<and> prompt prev K optsK pK multK script_p = Inr (True, self, script)
                    \<longrightarrow> prompt self k opts p mult script = Inr (False, prev, rest)))
        \<and> (\<forall>qk pre post self_a script_a.
              p = [] \<and> opts = options qk \<and> mult = multiple qk
              \<and> which_question self k = Inr (Some qk)
              \<and> stay
              \<and> ask_loop pre self_a script_a = Inr (True, self, script)
              \<longrightarrow> ask_loop (pre @ k # post) self_a script_a = Inr (False, self, rest)
                  \<and> ask_loop (pre @ k # post) self rest
                      = (case prompt self k (options qk) [] (multiple qk) rest of
                           Inl e \<Rightarrow> Inl e
                         | Inr (ok, self_n, script_n) \<Rightarrow>
                             if ok then ask_loop post self_n script_n else Inr (False, self_n, script_n)))
        \<and> (\<forall>qk pre K qK mid post self_a script_a prev script_p.
              p = [] \<and> opts = options qk \<and> mult = multiple qk
              \<and> which_question self k = Inr (Some qk)
              \<and> \<not> stay
              \<and> ask_loop pre self_a script_a = Inr (True, prev, script_p)
              \<and> which_question prev K = Inr (Some qK)
              \<and> map_of (choices prev) K = None
              \<and> prompt prev K (options qK) [] (multiple qK) script_p = Inr (True, self, script)
              \<and> ask_loop mid self script = Inr (True, self, script)
              \<longrightarrow> ask_loop (pre @ K # mid @ k # post) self_a script_a = Inr (False, prev, rest)
                  \<and> ask_loop (pre @ K # mid @ k # post) prev rest
                      = (case prompt prev K (options qK) [] (multiple qK) rest of
                           Inl e \<Rightarrow> Inl e
                         | Inr (ok, self_n, script_n) \<Rightarrow>
                             if ok then ask_loop (mid @ k # post) self_n script_n
                             else Inr (False, self_n, script_n)))"
    (is "?A \<and> ?B \<and> ?C \<and> ?D")
    if fr: "map_of (choices self) k = None"
  proof -
    have eff: "if stay then self' = self else self' = self\<lparr>choices := butlast (choices self)\<rparr>"
      using fr by (simp add: self'_def truthy go_back_fresh_0 go_back_fresh_1)
    have kept: "prompt self k opts p mult script = Inr (False, self, rest)" if stay
      using eff res that by simp
    have dropped: "prompt self k opts p mult script
                     = Inr (False, self\<lparr>choices := butlast (choices self)\<rparr>, rest)"
      if "\<not> stay"
      using eff res that by simp
    have unanswered: "map_of (butlast (choices self)) k = None"
      using fr by (rule map_of_butlast_None)
    have removed: "map_of (butlast (choices self)) (fst (last (choices self))) = None"
      if "distinct (map fst (choices self)) \<and> choices self \<noteq> []"
      using that by (simp add: map_of_butlast_last)
    have round: "prompt self k opts p mult script = Inr (False, prev, rest)"
      if "\<not> stay" "map_of (choices prev) K = None"
        "prompt prev K optsK pK multK script_p = Inr (True, self, script)"
      for prev K optsK pK multK script_p
    proof -
      from prompt_success [OF that(3)] obtain a where
        "self = prev\<lparr>choices := AList.update K a (choices prev)\<rparr>" by blast
      with that(2) have "self = prev\<lparr>choices := choices prev @ [(K, a)]\<rparr>"
        by (simp add: update_fresh_append)
      then have "self\<lparr>choices := butlast (choices self)\<rparr> = prev" by simp
      with dropped [OF that(1)] show ?thesis by simp
    qed
    have again: "ask_loop (pre @ k # post) self_a script_a = Inr (False, self, rest)
          \<and> ask_loop (pre @ k # post) self rest
              = (case prompt self k (options qk) [] (multiple qk) rest of
                   Inl e \<Rightarrow> Inl e
                 | Inr (ok, self_n, script_n) \<Rightarrow>
                     if ok then ask_loop post self_n script_n else Inr (False, self_n, script_n))"
      if "p = []" "opts = options qk" "mult = multiple qk"
        "which_question self k = Inr (Some qk)" "stay"
        "ask_loop pre self_a script_a = Inr (True, self, script)"
      for qk pre post self_a script_a
    proof -
      have "ask_loop (k # post) self script = Inr (False, self, rest)"
        using ask_loop_head_prompt [OF that(4) fr, of post script] kept [OF that(5)] that(1-3)
        by simp
      then have "ask_loop (pre @ k # post) self_a script_a = Inr (False, self, rest)"
        by (simp add: ask_loop_skip_prefix(1) [OF that(6)])
      moreover have "ask_loop (pre @ k # post) self rest = ask_loop (k # post) self rest"
        by (rule ask_loop_skip_prefix(2) [OF that(6)])
      ultimately show ?thesis
        by (simp only: ask_loop_head_prompt [OF that(4) fr])
    qed
    have earlier: "ask_loop (pre @ K # mid @ k # post) self_a script_a = Inr (False, prev, rest)
          \<and> ask_loop (pre @ K # mid @ k # post) prev rest
              = (case prompt prev K (options qK) [] (multiple qK) rest of
                   Inl e \<Rightarrow> Inl e
                 | Inr (ok, self_n, script_n) \<Rightarrow>
                     if ok then ask_loop (mid @ k # post) self_n script_n
                     else Inr (False, self_n, script_n))"
      if "p = []" "opts = options qk" "mult = multiple qk"
        "which_question self k = Inr (Some qk)" "\<not> stay"
        "ask_loop pre self_a script_a = Inr (True, prev, script_p)"
        "which_question prev K = Inr (Some qK)"
        "map_of (choices prev) K = None"
        "prompt prev K (options qK) [] (multiple qK) script_p = Inr (True, self, script)"
        "ask_loop mid self script = Inr (True, self, script)"
      for qk pre K qK mid post self_a script_a prev script_p
    proof -
      have "ask_loop (k # post) self script = Inr (False, prev, rest)"
        using ask_loop_head_prompt [OF that(4) fr, of post script]
          round [OF that(5) that(8) that(9)] that(1-3)
        by simp
      then have "ask_loop (mid @ k # post) self script = Inr (False, prev, rest)"
        by (simp add: ask_loop_skip_prefix(1) [OF that(10)])
      then have "ask_loop (K # mid @ k # post) prev script_p = Inr (False, prev, rest)"
        unfolding ask_loop_head_prompt [OF that(7) that(8)] that(9) by simp
      then have "ask_loop (pre @ K # mid @ k # post) self_a script_a = Inr (False, prev, rest)"
        by (simp add: ask_loop_skip_prefix(1) [OF that(6)])
      moreover have "ask_loop (pre @ K # mid @ k # post) prev rest
                       = ask_loop (K # mid @ k # post) prev rest"
        by (rule ask_loop_skip_prefix(2) [OF that(6)])
      ultimately show ?thesis
        by (simp only: ask_loop_head_prompt [OF that(7) that(8)])
    qed
    have A: ?A using kept by (rule impI)
    have B: ?B
    proof (intro impI conjI allI)
      assume ns: "\<not> stay"
      show "prompt self k opts p mult script
              = Inr (False, self\<lparr>choices := butlast (choices self)\<rparr>, rest)"
        using ns by (rule dropped)
      show "map_of (butlast (choices self)) k = None"
        by (rule unanswered)
      show "map_of (butlast (choices self)) (fst (last (choices self))) = None"
        if "distinct (map fst (choices self)) \<and> choices self \<noteq> []"
        using that by (rule removed)
      show "prompt self k opts p mult script = Inr (False, prev, rest)"
        if "map_of (choices prev) K = None
            \<and> prompt prev K optsK pK multK script_p = Inr (True, self, script)"
        for prev K optsK pK multK script_p
        using round [OF ns, of prev K optsK pK multK script_p] that by simp
    qed
    have C: ?C
      by (intro allI impI, elim conjE, rule again; assumption)
    have D: ?D
      by (intro allI impI, elim conjE, rule earlier; assumption)
    show ?thesis
      by (rule conjI [OF A conjI [OF B conjI [OF C D]]])
  qed
  show ?thesis
    unfolding stay_def [symmetric]
    apply (intro conjI)
      apply (rule ret)
     apply (rule val)
    apply (rule impI)
    apply (erule fresh)
    done
qed

text \<open>
  The claim as it was stated fails for a key that is already answered: the \<open>None\<close> of
  the back signal overwrites the answer in place, and \<open>go_back(1)\<close> then drops the last
  two entries, both of them completed answers.
\<close>

theorem prompt_back_navigation_counterexample:
  "prompt (activities\<lparr>choices := [(''day'', VStr ''monday''), (''time'', VStr ''night'')]\<rparr>)
     ''day'' (options q_day) [] False [Back]
   = Inr (False, activities\<lparr>choices := []\<rparr>, [])
   \<and> butlast [(''day'', VStr ''monday''), (''time'', VStr ''night'')] = [(''day'', VStr ''monday'')]"
  by (simp add: eval_defs)

theorem prompt_back_navigation_witness:
  "ask_questions activities [Select 2, Select 0, Back, Select 1, Select 1, Select 3]
     = Inr (False, activities\<lparr>choices := [(''day'', VStr ''saturday'')]\<rparr>,
            [Select 1, Select 1, Select 3])
   \<and> ask_questions (activities\<lparr>choices := [(''day'', VStr ''saturday'')]\<rparr>)
        [Select 1, Select 1, Select 3]
     = Inr (True,
            activities\<lparr>choices := [(''day'', VStr ''saturday''), (''time'', VStr ''night''),
                                   (''activities'', VList [''eat tacos de pastor''])]\<rparr>, [])
   \<and> ask_questions activities [Select 2, Select 1, Select 1, Back, Select 2, Select 3]
     = Inr (False,
            activities\<lparr>choices := [(''day'', VStr ''saturday''), (''time'', VStr ''night'')]\<rparr>,
            [Select 2, Select 3])
   \<and> ask_questions
        (activities\<lparr>choices := [(''day'', VStr ''saturday''), (''time'', VStr ''night'')]\<rparr>)
        [Select 2, Select 3]
     = Inr (True,
            activities\<lparr>choices := [(''day'', VStr ''saturday''), (''time'', VStr ''night''),
                                   (''activities'', VList [''go to the cantina''])]\<rparr>, [])"
proof -
  let ?s1 = "activities\<lparr>choices := [(''day'', VStr ''saturday'')]\<rparr>"
  let ?s2 = "activities\<lparr>choices := [(''day'', VStr ''saturday''), (''time'', VStr ''morning'')]\<rparr>"
  let ?n2 = "activities\<lparr>choices := [(''day'', VStr ''saturday''), (''time'', VStr ''night'')]\<rparr>"
  let ?rest = "[Select 1, Select 1, Select 3]"
  let ?rest' = "[Select 2, Select 3]"
  have ks: "map fst (questions activities) = [''day''] @ ''time'' # [] @ ''activities'' # []"
    "map fst (questions ?s1) = [''day''] @ ''time'' # [] @ ''activities'' # []"
    "map fst (questions activities) = [''day'', ''time''] @ ''activities'' # []"
    "map fst (questions ?n2) = [''day'', ''time''] @ ''activities'' # []"
    by (simp_all add: activities_def)
  obtain title where t: "prompt_title ?s2 ''activities'' [] = Inr title"
    by (simp add: eval_defs)
  have pk: "pick_with (multiple q_saturday) (options q_saturday) title (Back # ?rest)
              = Inr ((VList [], - 1), ?rest)"
    by (simp add: eval_defs)
  have neg: "(- 1 :: int) < 0" by simp
  have fr: "map_of (choices ?s2) ''activities'' = None" by simp
  have w: "which_question ?s2 ''activities'' = Inr (Some q_saturday)"
    by (simp add: eval_defs)
  have ns: "\<not> (multiple q_saturday \<and> VList [] \<noteq> VList [])" by simp
  have pre: "ask_loop [''day''] activities [Select 2, Select 0, Back, Select 1, Select 1, Select 3]
               = Inr (True, ?s1, Select 0 # Back # ?rest)"
    by (simp add: eval_defs)
  have wK: "which_question ?s1 ''time'' = Inr (Some q_time)"
    by (simp add: eval_defs)
  have frK: "map_of (choices ?s1) ''time'' = None" by simp
  have pK: "prompt ?s1 ''time'' (options q_time) [] (multiple q_time) (Select 0 # Back # ?rest)
              = Inr (True, ?s2, Back # ?rest)"
    by (simp add: eval_defs)
  have mid: "ask_loop [] ?s2 (Back # ?rest) = Inr (True, ?s2, Back # ?rest)" by simp
  note E = prompt_back_navigation
             [OF t pk neg, THEN conjunct2, THEN conjunct2, THEN mp, OF fr,
              THEN conjunct2, THEN conjunct2, THEN conjunct2, rule_format,
              where qk = q_saturday and pre = "[''day'']" and K = "''time''" and qK = q_time
                and mid = "[]" and post = "[]" and self_a = activities
                and script_a = "[Select 2, Select 0, Back, Select 1, Select 1, Select 3]"
                and prev = ?s1 and script_p = "Select 0 # Back # ?rest"]
  have e: "ask_loop ([''day''] @ ''time'' # [] @ ''activities'' # []) activities
             [Select 2, Select 0, Back, Select 1, Select 1, Select 3] = Inr (False, ?s1, ?rest)
           \<and> ask_loop ([''day''] @ ''time'' # [] @ ''activities'' # []) ?s1 ?rest
               = (case prompt ?s1 ''time'' (options q_time) [] (multiple q_time) ?rest of
                    Inl e \<Rightarrow> Inl e
                  | Inr (ok, self_n, script_n) \<Rightarrow>
                      if ok then ask_loop ([] @ ''activities'' # []) self_n script_n
                      else Inr (False, self_n, script_n))"
    by (rule E) (intro conjI refl w ns pre wK frK pK mid)
  have first: "ask_questions activities [Select 2, Select 0, Back, Select 1, Select 1, Select 3]
                 = Inr (False, ?s1, ?rest)"
    unfolding ask_questions_def ks(1) using e by (rule conjunct1)
  have "prompt ?s1 ''time'' (options q_time) [] (multiple q_time) ?rest
          = Inr (True, ?n2, [Select 1, Select 3])"
    by (simp add: eval_defs)
  moreover have "ask_loop ([] @ ''activities'' # []) ?n2 [Select 1, Select 3]
          = Inr (True,
            activities\<lparr>choices := [(''day'', VStr ''saturday''), (''time'', VStr ''night''),
                                   (''activities'', VList [''eat tacos de pastor''])]\<rparr>, [])"
    by (simp add: eval_defs)
  ultimately have second: "ask_questions ?s1 ?rest
     = Inr (True,
            activities\<lparr>choices := [(''day'', VStr ''saturday''), (''time'', VStr ''night''),
                                   (''activities'', VList [''eat tacos de pastor''])]\<rparr>, [])"
    unfolding ask_questions_def ks(2) using e [THEN conjunct2] by simp
  obtain title' where t': "prompt_title ?n2 ''activities'' [] = Inr title'"
    by (simp add: eval_defs)
  have pk': "pick_with (multiple q_night) (options q_night) title' (Select 1 # Back # ?rest')
              = Inr ((VList [''eat tacos de pastor''], - 1), ?rest')"
    by (simp add: eval_defs)
  have fr': "map_of (choices ?n2) ''activities'' = None" by simp
  have w': "which_question ?n2 ''activities'' = Inr (Some q_night)"
    by (simp add: eval_defs)
  have st: "multiple q_night \<and> VList [''eat tacos de pastor''] \<noteq> VList []"
    by (simp add: q_night_def)
  have pre': "ask_loop [''day'', ''time''] activities
                [Select 2, Select 1, Select 1, Back, Select 2, Select 3]
               = Inr (True, ?n2, Select 1 # Back # ?rest')"
    by (simp add: eval_defs)
  note A = prompt_back_navigation
             [OF t' pk' neg, THEN conjunct2, THEN conjunct2, THEN mp, OF fr',
              THEN conjunct2, THEN conjunct2, THEN conjunct1, rule_format,
              where qk = q_night and pre = "[''day'', ''time'']" and post = "[]"
                and self_a = activities
                and script_a = "[Select 2, Select 1, Select 1, Back, Select 2, Select 3]"]
  have a: "ask_loop ([''day'', ''time''] @ ''activities'' # []) activities
             [Select 2, Select 1, Select 1, Back, Select 2, Select 3] = Inr (False, ?n2, ?rest')
           \<and> ask_loop ([''day'', ''time''] @ ''activities'' # []) ?n2 ?rest'
               = (case prompt ?n2 ''activities'' (options q_night) [] (multiple q_night) ?rest' of
                    Inl e \<Rightarrow> Inl e
                  | Inr (ok, self_n, script_n) \<Rightarrow>
                      if ok then ask_loop [] self_n script_n
                      else Inr (False, self_n, script_n))"
    by (rule A) (intro conjI refl w' st [THEN conjunct1] st [THEN conjunct2] pre')
  have third: "ask_questions activities [Select 2, Select 1, Select 1, Back, Select 2, Select 3]
                 = Inr (False, ?n2, ?rest')"
    unfolding ask_questions_def ks(3) using a by (rule conjunct1)
  have "prompt ?n2 ''activities'' (options q_night) [] (multiple q_night) ?rest'
          = Inr (True,
            activities\<lparr>choices := [(''day'', VStr ''saturday''), (''time'', VStr ''night''),
                                   (''activities'', VList [''go to the cantina''])]\<rparr>, [])"
    by (simp add: eval_defs)
  then have fourth: "ask_questions ?n2 ?rest'
     = Inr (True,
            activities\<lparr>choices := [(''day'', VStr ''saturday''), (''time'', VStr ''night''),
                                   (''activities'', VList [''go to the cantina''])]\<rparr>, [])"
    unfolding ask_questions_def ks(4) using a [THEN conjunct2] by simp
  from first second third fourth show ?thesis by (intro conjI)
qed

end
